theory Spec2Isabelle
  imports Complex_Main "HOL-Library.Sublist" "HOL-Library.AList"
begin

section \<open>The file tree behind the model\<close>

text \<open>
  \<open>CheckableFileSystemModel\<close> (src/main.py) is a \<open>QFileSystemModel\<close>: a tree of
  files and directories addressed by model indexes. The tree is a datatype, a node
  carrying its file name. A model index is the list of row numbers leading from the
  invisible root to the node; the empty list is the invalid index \<open>QModelIndex()\<close>, which
  is also the parent of the top-level entries. The tree value passed around is the
  invisible root itself.
\<close>

datatype fsnode = File string | Dir string "fsnode list"

type_synonym model_index = "nat list"

datatype check_state = Unchecked | PartiallyChecked | Checked

fun node_name :: "fsnode \<Rightarrow> string" where
  "node_name (File n) = n"
| "node_name (Dir n cs) = n"

fun children :: "fsnode \<Rightarrow> fsnode list" where
  "children (File n) = []"
| "children (Dir n cs) = cs"

fun lookup :: "fsnode \<Rightarrow> model_index \<Rightarrow> fsnode option" where
  "lookup t [] = Some t"
| "lookup t (i # rest) =
     (if i < length (children t) then lookup (children t ! i) rest else None)"

text \<open>\<open>rowCount(index)\<close>: the number of children; a file and an index that resolves to
  nothing have none.\<close>

definition rowCount :: "fsnode \<Rightarrow> model_index \<Rightarrow> nat" where
  "rowCount t idx = (case lookup t idx of None \<Rightarrow> 0 | Some n \<Rightarrow> length (children n))"

definition isDir :: "fsnode \<Rightarrow> model_index \<Rightarrow> bool" where
  "isDir t idx = (case lookup t idx of Some (Dir n cs) \<Rightarrow> True | _ \<Rightarrow> False)"

text \<open>\<open>self.index(i, 0, parent)\<close>, \<open>index.parent()\<close> and \<open>index.isValid()\<close>.\<close>

definition index_at :: "nat \<Rightarrow> model_index \<Rightarrow> model_index" where
  "index_at i parent = parent @ [i]"

definition parent_of :: "model_index \<Rightarrow> model_index" where
  "parent_of idx = butlast idx"

definition isValid :: "model_index \<Rightarrow> bool" where
  "isValid idx = (idx \<noteq> [])"

section \<open>Check-state propagation\<close>

text \<open>
  The selection set \<open>checked_indexes\<close> is threaded through as a set of indexes. The
  \<open>dataChanged\<close> signals only repaint the view and are left out. \<open>setData\<close> is modelled for
  the branch \<open>role == Qt.CheckStateRole and index.column() == 0\<close>, the only one that touches
  the selection set.
\<close>

text \<open>The counting loop of \<open>update_parent\<close>: one step per row of the parent, the
  accumulator being \<open>(checked, total)\<close>.\<close>

definition count_step ::
  "fsnode \<Rightarrow> model_index set \<Rightarrow> model_index \<Rightarrow> nat \<Rightarrow> nat \<times> nat \<Rightarrow> nat \<times> nat" where
  "count_step t C parent i acc =
     (let child = index_at i parent in
      if \<not> isDir t child
      then (if child \<in> C then fst acc + 1 else fst acc, snd acc + 1)
      else acc)"

definition count_children :: "fsnode \<Rightarrow> model_index set \<Rightarrow> model_index \<Rightarrow> nat \<times> nat" where
  "count_children t C parent = fold (count_step t C parent) [0..<rowCount t parent] (0, 0)"

function update_parent :: "fsnode \<Rightarrow> model_index \<Rightarrow> model_index set \<Rightarrow> model_index set" where
  "update_parent t idx C =
     (let parent = parent_of idx in
      if isValid parent then
        (let checked = fst (count_children t C parent);
             total = snd (count_children t C parent) in
         if total > 0 then
           update_parent t parent
             (if checked = total then insert parent C
              else if checked = 0 then C - {parent}
              else insert parent C)
         else C)
      else C)"
  by pat_completeness auto
termination
  by (relation "measure (\<lambda>(t, idx, C). length idx)")
     (auto simp: parent_of_def isValid_def intro: diff_less length_greater_0_conv [THEN iffD2])

declare update_parent.simps [simp del]

lemma not_isDir_rowCount: "\<not> isDir t idx \<Longrightarrow> rowCount t idx = 0"
  by (auto simp: isDir_def rowCount_def split: option.splits fsnode.splits)

function setData ::
    "fsnode \<Rightarrow> model_index \<Rightarrow> check_state \<Rightarrow> model_index set \<Rightarrow> model_index set"
  and update_children ::
    "fsnode \<Rightarrow> model_index \<Rightarrow> check_state \<Rightarrow> model_index set \<Rightarrow> model_index set" where
  "setData t idx v C =
     update_parent t idx
       (update_children t idx v (if v = Checked then insert idx C else C - {idx}))"
| "update_children t idx v C =
     fold (\<lambda>i C'. let child = index_at i idx in
                   if isDir t child then C' else setData t child v C')
          [0..<rowCount t idx] C"
  by pat_completeness auto
termination
  by (relation "measure (\<lambda>x. case x of
         Inl (t, idx, v, C) \<Rightarrow> 2 * rowCount t idx + 1
       | Inr (t, idx, v, C) \<Rightarrow> 2 * rowCount t idx)")
     (auto simp: not_isDir_rowCount)

declare setData.simps [simp del] update_children.simps [simp del]

definition is_checked :: "model_index set \<Rightarrow> model_index \<Rightarrow> bool" where
  "is_checked C idx = (idx \<in> C)"

section \<open>Collecting the files below the root\<close>

text \<open>\<open>fileInfo(index).suffix()\<close> is the part of the file name after its last dot (empty
  when there is none). Characters stand for the code points below 256; \<open>lower()\<close> maps
  the capital letters among them, the 26 of ASCII and the 30 accented ones from \<open>0xC0\<close> to
  \<open>0xDE\<close>, to their small letters and leaves every other character alone.\<close>

definition fileName :: "fsnode \<Rightarrow> model_index \<Rightarrow> string" where
  "fileName t idx = (case lookup t idx of None \<Rightarrow> [] | Some n \<Rightarrow> node_name n)"

definition file_suffix :: "string \<Rightarrow> string" where
  "file_suffix name =
     (if CHR ''.'' \<in> set name then rev (takeWhile (\<lambda>c. c \<noteq> CHR ''.'') (rev name)) else [])"

definition upper_letters :: string where
  "upper_letters =
     ''ABCDEFGHIJKLMNOPQRSTUVWXYZ'' @
          [CHR 0xC0, CHR 0xC1, CHR 0xC2, CHR 0xC3, CHR 0xC4, CHR 0xC5, CHR 0xC6, CHR 0xC7,
           CHR 0xC8, CHR 0xC9, CHR 0xCA, CHR 0xCB, CHR 0xCC, CHR 0xCD, CHR 0xCE, CHR 0xCF,
           CHR 0xD0, CHR 0xD1, CHR 0xD2, CHR 0xD3, CHR 0xD4, CHR 0xD5, CHR 0xD6, CHR 0xD8,
           CHR 0xD9, CHR 0xDA, CHR 0xDB, CHR 0xDC, CHR 0xDD, CHR 0xDE]"

definition lower_letters :: string where
  "lower_letters =
     ''abcdefghijklmnopqrstuvwxyz'' @
          [CHR 0xE0, CHR 0xE1, CHR 0xE2, CHR 0xE3, CHR 0xE4, CHR 0xE5, CHR 0xE6, CHR 0xE7,
           CHR 0xE8, CHR 0xE9, CHR 0xEA, CHR 0xEB, CHR 0xEC, CHR 0xED, CHR 0xEE, CHR 0xEF,
           CHR 0xF0, CHR 0xF1, CHR 0xF2, CHR 0xF3, CHR 0xF4, CHR 0xF5, CHR 0xF6, CHR 0xF8,
           CHR 0xF9, CHR 0xFA, CHR 0xFB, CHR 0xFC, CHR 0xFD, CHR 0xFE]"

definition lower_char :: "char \<Rightarrow> char" where
  "lower_char c = (case map_of (zip upper_letters lower_letters) c of Some d \<Rightarrow> d | None \<Rightarrow> c)"

definition lower :: "string \<Rightarrow> string" where
  "lower s = map lower_char s"

definition index_valid :: "fsnode \<Rightarrow> string list \<Rightarrow> model_index \<Rightarrow> bool" where
  "index_valid t exts idx = (isDir t idx \<or> lower (file_suffix (fileName t idx)) \<in> set exts)"

text \<open>One row of the \<open>for\<close> loop inside \<open>get_all_file_indexes\<close>; the accumulator is
  \<open>(stack, files)\<close>. Both are Python lists: \<open>append\<close> adds at the end and \<open>pop()\<close> takes
  the last element.\<close>

definition scan_step ::
  "fsnode \<Rightarrow> string list \<Rightarrow> model_index \<Rightarrow> nat \<Rightarrow>
   model_index list \<times> model_index list \<Rightarrow> model_index list \<times> model_index list" where
  "scan_step t exts parent i acc =
     (let child = index_at i parent in
      if isDir t child then (fst acc @ [child], snd acc)
      else if index_valid t exts child then (fst acc, snd acc @ [child])
      else acc)"

text \<open>The \<open>while stack\<close> loop ends because the tree is finite: the nodes waiting on the
  stack weigh less after every round.\<close>

fun weight :: "fsnode \<Rightarrow> nat" where
  "weight (File n) = 1"
| "weight (Dir n cs) = Suc (sum_list (map weight cs))"

definition index_weight :: "fsnode \<Rightarrow> model_index \<Rightarrow> nat" where
  "index_weight t idx = (case lookup t idx of None \<Rightarrow> 1 | Some n \<Rightarrow> weight n)"

lemma lookup_append:
  "lookup t (p @ q) = (case lookup t p of None \<Rightarrow> None | Some n \<Rightarrow> lookup n q)"
  by (induction p arbitrary: t) auto

lemma lookup_child:
  "lookup t (index_at i p) =
     (case lookup t p of None \<Rightarrow> None
      | Some n \<Rightarrow> if i < length (children n) then Some (children n ! i) else None)"
  by (simp add: index_at_def lookup_append split: option.splits)

lemma scan_fold_fst:
  "fst (fold (scan_step t exts p) rows acc) =
     fst acc @ filter (isDir t) (map (\<lambda>i. index_at i p) rows)"
  by (induction rows arbitrary: acc) (simp_all add: scan_step_def Let_def)

lemma scan_fold_snd:
  "snd (fold (scan_step t exts p) rows acc) =
     snd acc @ filter (\<lambda>c. \<not> isDir t c \<and> index_valid t exts c) (map (\<lambda>i. index_at i p) rows)"
  by (induction rows arbitrary: acc) (simp_all add: scan_step_def Let_def)

lemma weight_children: "sum_list (map weight (children n)) < weight n"
  by (cases n) simp_all

lemma sum_filter_le: "sum_list (map f (filter P xs)) \<le> sum_list (map (f :: 'a \<Rightarrow> nat) xs)"
  by (induction xs) simp_all

lemma dir_children_weight:
  "sum_list (map (index_weight t) (filter (isDir t) (map (\<lambda>i. index_at i p) [0..<rowCount t p])))
   < index_weight t p"
proof (cases "lookup t p")
  case None
  then show ?thesis by (simp add: rowCount_def index_weight_def)
next
  case (Some n)
  have "map (index_weight t) (map (\<lambda>i. index_at i p) [0..<length (children n)]) =
        map weight (children n)"
    by (rule nth_equalityI) (simp_all add: index_weight_def lookup_child Some)
  then have "sum_list (map (index_weight t) (map (\<lambda>i. index_at i p) [0..<rowCount t p])) =
        sum_list (map weight (children n))"
    by (simp add: rowCount_def Some)
  moreover have "sum_list (map (index_weight t)
                   (filter (isDir t) (map (\<lambda>i. index_at i p) [0..<rowCount t p])))
        \<le> sum_list (map (index_weight t) (map (\<lambda>i. index_at i p) [0..<rowCount t p]))"
    by (rule sum_filter_le)
  ultimately show ?thesis
    using weight_children [of n] by (simp add: index_weight_def Some)
qed

function get_all_file_indexes_loop ::
  "fsnode \<Rightarrow> string list \<Rightarrow> model_index list \<Rightarrow> model_index list \<Rightarrow> model_index list" where
  "get_all_file_indexes_loop t exts stack files =
     (if stack = [] then files
      else
        (let parent = last stack;
             acc = fold (scan_step t exts parent) [0..<rowCount t parent] (butlast stack, files)
         in get_all_file_indexes_loop t exts (fst acc) (snd acc)))"
  by pat_completeness auto
termination
proof (relation "measure (\<lambda>(t, exts, stack, files). sum_list (map (index_weight t) stack))")
  show "wf (measure (\<lambda>(t, exts, stack, files). sum_list (map (index_weight t) stack)))"
    by simp
next
  fix t :: fsnode and exts :: "string list" and stack files :: "model_index list"
    and p and acc
  assume ne: "stack \<noteq> []" and p: "p = last stack"
    and acc: "acc = fold (scan_step t exts p) [0..<rowCount t p] (butlast stack, files)"
  have st: "stack = butlast stack @ [p]" using ne p by simp
  have "sum_list (map (index_weight t) (fst acc)) =
        sum_list (map (index_weight t) (butlast stack)) +
        sum_list (map (index_weight t) (filter (isDir t) (map (\<lambda>i. index_at i p) [0..<rowCount t p])))"
    by (simp add: acc scan_fold_fst)
  also have "\<dots> < sum_list (map (index_weight t) (butlast stack)) + index_weight t p"
    using dir_children_weight [of t p] by simp
  also have "\<dots> = sum_list (map (index_weight t) stack)"
    by (subst (2) st) simp
  finally show "((t, exts, fst acc, snd acc), (t, exts, stack, files))
        \<in> measure (\<lambda>(t, exts, stack, files). sum_list (map (index_weight t) stack))"
    by (simp add: case_prod_beta)
qed

declare get_all_file_indexes_loop.simps [simp del]

text \<open>\<open>root_index\<close> is the source's \<open>root\<close>, that is \<open>self.index(self.rootPath())\<close>.\<close>

definition get_all_file_indexes :: "fsnode \<Rightarrow> string list \<Rightarrow> model_index \<Rightarrow> model_index list" where
  "get_all_file_indexes t exts root_index = get_all_file_indexes_loop t exts [root_index] []"

section \<open>Paths\<close>

text \<open>
  \<open>QFileSystemModel.index(path)\<close> resolves a path by the names along it, and
  \<open>filePath(index)\<close> joins the names back; a path that resolves to nothing gives the
  invalid index. The entries directly under the invisible root are the top-level
  directories, so the path of \<open>[0]\<close> in a tree whose first entry is \<open>proj\<close> is \<open>/proj\<close>.
\<close>

fun find_row :: "string \<Rightarrow> fsnode list \<Rightarrow> nat option" where
  "find_row c [] = None"
| "find_row c (x # xs) = (if node_name x = c then Some 0 else map_option Suc (find_row c xs))"

fun resolve :: "fsnode \<Rightarrow> string list \<Rightarrow> model_index option" where
  "resolve n [] = Some []"
| "resolve n (c # cs) =
     (case find_row c (children n) of
        None \<Rightarrow> None
      | Some i \<Rightarrow> map_option ((#) i) (resolve (children n ! i) cs))"

fun split_acc :: "string \<Rightarrow> string \<Rightarrow> string list" where
  "split_acc cur [] = (if cur = [] then [] else [cur])"
| "split_acc cur (c # cs) =
     (if c = CHR ''/'' then (if cur = [] then split_acc [] cs else cur # split_acc [] cs)
      else split_acc (cur @ [c]) cs)"

definition split_path :: "string \<Rightarrow> string list" where
  "split_path p = split_acc [] p"

definition index_of_path :: "fsnode \<Rightarrow> string \<Rightarrow> model_index" where
  "index_of_path t p = (case resolve t (split_path p) of None \<Rightarrow> [] | Some idx \<Rightarrow> idx)"

fun path_from :: "fsnode \<Rightarrow> model_index \<Rightarrow> string" where
  "path_from n [] = []"
| "path_from n (i # rest) =
     (if i < length (children n)
      then CHR ''/'' # node_name (children n ! i) @ path_from (children n ! i) rest
      else [])"

definition filePath :: "fsnode \<Rightarrow> model_index \<Rightarrow> string" where
  "filePath t idx = (case lookup t idx of None \<Rightarrow> [] | Some n \<Rightarrow> path_from t idx)"

section \<open>The main window\<close>

text \<open>
  \<open>MainWindow\<close> keeps the model, the base directory, the two dictionaries of text blocks
  and the widgets whose contents the handlers read or write. What the handlers ask of
  the operating system and of the Python runtime is gathered in \<open>os_env\<close>:
  \<^item> \<open>read_text p\<close> is \<open>open(p, 'r', encoding='utf-8').read()\<close>, \<open>Inl\<close> standing for the
    exception it raises;
  \<^item> \<open>relpath\<close>, \<open>listdir\<close>, \<open>isdir\<close> and \<open>isfile\<close> are the \<open>os\<close> and \<open>os.path\<close> functions of
    the same names, \<open>program_dir\<close> is \<open>os.path.dirname(sys.argv[0])\<close>;
  \<^item> \<open>write_ok p\<close> tells whether writing the file \<open>p\<close> succeeds;
  \<^item> \<open>set_order S\<close> is the order in which a \<open>for\<close> loop visits the Python set \<open>S\<close>, which
    the language leaves open.
  The \<open>print\<close> calls of the \<open>except\<close> branches write to the console only and are left out.
\<close>

record fs_model =
  tree :: fsnode
  rootPath :: string
  checked_indexes :: "model_index set"
  extensions :: "string list"

datatype py_exception = OSError | UnicodeDecodeError | ValueError

record os_env =
  read_text :: "string \<Rightarrow> py_exception + string"
  write_ok :: "string \<Rightarrow> bool"
  relpath :: "string \<Rightarrow> string \<Rightarrow> py_exception + string"
  listdir :: "string \<Rightarrow> string list"
  isdir :: "string \<Rightarrow> bool"
  isfile :: "string \<Rightarrow> bool"
  set_order :: "model_index set \<Rightarrow> model_index list"
  program_dir :: string

text \<open>A \<open>QComboBox\<close>: its items and the current row, \<open>-1\<close> when there is none. Adding items
  to an empty box makes the first one current.\<close>

record combo_box =
  items :: "string list"
  currentIndex :: int

definition combo_clear :: combo_box where
  "combo_clear = \<lparr>items = [], currentIndex = - 1\<rparr>"

definition addItems :: "string list \<Rightarrow> combo_box \<Rightarrow> combo_box" where
  "addItems texts c =
     \<lparr>items = items c @ texts,
      currentIndex = (if items c = [] \<and> texts \<noteq> [] then 0 else currentIndex c)\<rparr>"

definition currentText :: "combo_box \<Rightarrow> string" where
  "currentText c =
     (if 0 \<le> currentIndex c \<and> currentIndex c < int (length (items c))
      then items c ! nat (currentIndex c) else [])"

record main_window =
  base_directory :: "string option"
  model :: fs_model
  tree_root_index :: model_index
  tasktypes :: "(string \<times> string) list"
  presets :: "(string \<times> string) list"
  tasktype_checkbox :: bool
  tasktype_combo :: combo_box
  presets_checkbox :: bool
  presets_combo :: combo_box
  task_instruction :: string
  final_prompt :: string
  difficulty_value_label :: "string \<times> string \<times> string"
  token_count_label :: int
  watched_files :: "string list"

text \<open>\<open>if self.base_directory:\<close> holds for a string that is not empty.\<close>

definition truthy :: "string option \<Rightarrow> bool" where
  "truthy d = (case d of None \<Rightarrow> False | Some s \<Rightarrow> s \<noteq> [])"

text \<open>\<open>sep.join(xs)\<close>, \<open>os.path.join(a, b)\<close>, \<open>os.path.splitext(p)[0]\<close> for a file name
  (dots at the very start do not begin an extension) and \<open>s.endswith(suf)\<close>.\<close>

fun str_join :: "string \<Rightarrow> string list \<Rightarrow> string" where
  "str_join sep [] = []"
| "str_join sep [x] = x"
| "str_join sep (x # y # ys) = x @ sep @ str_join sep (y # ys)"

definition path_join :: "string \<Rightarrow> string \<Rightarrow> string" where
  "path_join a b =
     (if b \<noteq> [] \<and> hd b = CHR ''/'' then b
      else if a = [] \<or> last a = CHR ''/'' then a @ b
      else a @ ''/'' @ b)"

definition splitext_root :: "string \<Rightarrow> string" where
  "splitext_root p =
     (if CHR ''.'' \<notin> set p then p
      else (let r = rev (tl (dropWhile (\<lambda>c. c \<noteq> CHR ''.'') (rev p))) in
            if filter (\<lambda>c. c \<noteq> CHR ''.'') r = [] then p else r))"

definition endswith :: "string \<Rightarrow> string \<Rightarrow> bool" where
  "endswith s suf = (length suf \<le> length s \<and> drop (length s - length suf) s = suf)"

subsection \<open>Loading the presets and the task types\<close>

text \<open>The body of the \<open>for filename in os.listdir(...)\<close> loop, which \<open>load_presets\<close> and
  \<open>load_tasktypes\<close> share word for word: a file that cannot be read leaves the dictionary
  as it is. A Python dictionary keeps its keys in insertion order, so it is an
  association list.\<close>

definition load_step ::
  "os_env \<Rightarrow> string \<Rightarrow> string \<Rightarrow> (string \<times> string) list \<Rightarrow> (string \<times> string) list" where
  "load_step env dir filename d =
     (if endswith filename ''.txt'' then
        (let filepath = path_join dir filename in
         case read_text env filepath of
           Inr content \<Rightarrow> AList.update (splitext_root filename) content d
         | Inl e \<Rightarrow> d)
      else d)"

definition load_presets :: "os_env \<Rightarrow> main_window \<Rightarrow> main_window" where
  "load_presets env w =
     (let presets_dir = path_join (program_dir env) ''presets'' in
      if isdir env presets_dir then
        (let d = fold (load_step env presets_dir) (listdir env presets_dir) [] in
         w\<lparr>presets := d, presets_combo := addItems (map fst d) combo_clear\<rparr>)
      else w\<lparr>presets := [], presets_combo := combo_clear\<rparr>)"

definition load_tasktypes :: "os_env \<Rightarrow> main_window \<Rightarrow> main_window" where
  "load_tasktypes env w =
     (let tasktypes_dir = path_join (program_dir env) ''tasktype'' in
      if isdir env tasktypes_dir then
        (let d = fold (load_step env tasktypes_dir) (listdir env tasktypes_dir) [] in
         w\<lparr>tasktypes := d, tasktype_combo := addItems (map fst d) combo_clear\<rparr>)
      else w\<lparr>tasktypes := [], tasktype_combo := combo_clear\<rparr>)"

subsection \<open>Estimating the token count\<close>

text \<open>
  \<open>text.split()\<close> cuts the text at runs of white space and returns the words between
  them. Characters stand for the code points below 256, of which Python counts these
  twelve as white space.
\<close>

definition is_space :: "char \<Rightarrow> bool" where
  "is_space c \<longleftrightarrow>
     c \<in> set [CHR 0x09, CHR 0x0A, CHR 0x0B, CHR 0x0C, CHR 0x0D, CHR 0x1C, CHR 0x1D, CHR 0x1E,
              CHR 0x1F, CHR 0x20, CHR 0x85, CHR 0xA0]"

fun split_words :: "string \<Rightarrow> string \<Rightarrow> string list" where
  "split_words cur [] = (if cur = [] then [] else [cur])"
| "split_words cur (c # cs) =
     (if is_space c then (if cur = [] then split_words [] cs else cur # split_words [] cs)
      else split_words (cur @ [c]) cs)"

definition py_split :: "string \<Rightarrow> string list" where
  "py_split text = split_words [] text"

text \<open>
  \<open>word_count * 1.2\<close> is a product of Python floats, that is of IEEE 754 doubles: the
  integer is converted to the nearest double, the literal \<open>1.2\<close> denotes the double nearest
  to 12/10, and the product is the exact product rounded to the nearest double, a tie
  going to the even significand. A double with \<open>2 ^ e \<le> x < 2 ^ (e + 1)\<close> is a multiple of
  \<open>2 ^ (e - 52)\<close>. The values are kept as exact rationals; \<open>double_round\<close> is the rounding for
  \<open>x = 0\<close> and for \<open>1 \<le> x\<close> below the overflow threshold, which is where the operands and
  the product of this computation lie. \<open>exp2 n\<close> is the exponent \<open>e\<close> of a positive integer.
\<close>

fun exp2 :: "nat \<Rightarrow> nat" where
  "exp2 n = (if n < 2 then 0 else Suc (exp2 (n div 2)))"

declare exp2.simps [simp del]

definition round_half_even :: "rat \<Rightarrow> int" where
  "round_half_even y =
     (let f = \<lfloor>y\<rfloor>; d = y - of_int f in
      if d < 1 / 2 then f else if 1 / 2 < d then f + 1 else if even f then f else f + 1)"

definition double_ulp :: "rat \<Rightarrow> rat" where
  "double_ulp x =
     (let e = exp2 (nat \<lfloor>x\<rfloor>) in if 52 \<le> e then 2 ^ (e - 52) else 1 / 2 ^ (52 - e))"

definition double_round :: "rat \<Rightarrow> rat" where
  "double_round x =
     (if x = 0 then 0 else of_int (round_half_even (x / double_ulp x)) * double_ulp x)"

definition float_of_nat :: "nat \<Rightarrow> rat" where
  "float_of_nat n = double_round (of_nat n)"

definition float_mul :: "rat \<Rightarrow> rat \<Rightarrow> rat" where
  "float_mul a b = double_round (a * b)"

text \<open>\<open>update_token_count\<close> gives the number \<open>estimated_tokens\<close> it writes into the label;
  \<open>int(...)\<close> of a float that is not negative is its floor. The percentage beside it is
  display only and left out.\<close>

definition update_token_count :: "string \<Rightarrow> int" where
  "update_token_count text =
     (let word_count = length (py_split text);
          estimated_tokens = \<lfloor>float_mul (float_of_nat word_count) (double_round (12 / 10))\<rfloor>
      in estimated_tokens)"

subsection \<open>Assembling the final prompt\<close>

definition update_file_watcher :: "os_env \<Rightarrow> main_window \<Rightarrow> main_window" where
  "update_file_watcher env w =
     w\<lparr>watched_files :=
         filter (isfile env)
           (map (filePath (tree (model w)))
              (filter (\<lambda>idx. \<not> isDir (tree (model w)) idx)
                 (set_order env (checked_indexes (model w)))))\<rparr>"

text \<open>The label's text, its tool tip and its style sheet.\<close>

definition update_difficulty_level :: "nat \<Rightarrow> string \<times> string \<times> string" where
  "update_difficulty_level file_count =
     (if file_count \<le> 2
        then (''Easy'', ''Low risk of hallucinating'', ''font-weight: bold; color: green;'')
      else if 3 \<le> file_count \<and> file_count \<le> 5
        then (''Moderate'', ''Slight risk of hallucinating'', ''font-weight: bold; color: orange;'')
      else (''Hard'', ''High risk of hallucinating'', ''font-weight: bold; color: red;''))"

definition file_block :: "string \<Rightarrow> string \<Rightarrow> string" where
  "file_block relative_path content =
     (''<!-- '' @ relative_path @ '' -->'') @ [CHR 0x0A] @ content @ [CHR 0x0A] @
     (''<!-- end of '' @ relative_path @ '' -->'')"

text \<open>One round of the loop over \<open>checked_indexes.copy()\<close>; the accumulator is
  \<open>(files_content, selected_file_count)\<close>. The \<open>try\<close> block covers the read and
  \<open>os.path.relpath\<close>; its \<open>except\<close> branch leaves both untouched.\<close>

definition read_step ::
  "os_env \<Rightarrow> fs_model \<Rightarrow> string \<Rightarrow> model_index \<Rightarrow> string list \<times> nat \<Rightarrow> string list \<times> nat" where
  "read_step env m base idx acc =
     (if isDir (tree m) idx then acc
      else if \<not> index_valid (tree m) (extensions m) idx then acc
      else
        (let file_path = filePath (tree m) idx in
         case read_text env file_path of
           Inl e \<Rightarrow> acc
         | Inr content \<Rightarrow>
             (case relpath env file_path base of
                Inl e \<Rightarrow> acc
              | Inr relative_path \<Rightarrow>
                  (fst acc @ [file_block relative_path content], snd acc + 1))))"

text \<open>The task type at the top and the preset at the bottom are added by the same three
  lines: the comment naming the entry, then its text, when the box is ticked and the
  current name is a key of the dictionary.\<close>

definition labelled :: "bool \<Rightarrow> string \<Rightarrow> combo_box \<Rightarrow> (string \<times> string) list \<Rightarrow> string list" where
  "labelled checked label combo d =
     (if checked then
        (let name = currentText combo in
         case map_of d name of
           Some text \<Rightarrow>
             if name \<noteq> [] then [''<!-- '' @ label @ '': '' @ name @ '' -->'', text] else []
         | None \<Rightarrow> [])
      else [])"

definition update_final_prompt :: "os_env \<Rightarrow> main_window \<Rightarrow> main_window" where
  "update_final_prompt env w =
     (let content_list =
            labelled (tasktype_checkbox w) ''Tasktype'' (tasktype_combo w) (tasktypes w) @
            [''<!-- Task Instruction -->'', task_instruction w];
          acc = (case base_directory w of
                   None \<Rightarrow> ([], 0)
                 | Some base \<Rightarrow>
                     if base \<noteq> [] then
                       fold (read_step env (model w) base)
                            (set_order env (checked_indexes (model w))) ([], 0)
                     else ([], 0));
          content_list = content_list @
            (if fst acc \<noteq> []
             then [''<!-- Selected Files -->'', str_join [CHR 0x0A, CHR 0x0A] (fst acc)]
             else []);
          content_list = content_list @
            labelled (presets_checkbox w) ''Preset'' (presets_combo w) (presets w);
          final_prompt_content = str_join [CHR 0x0A, CHR 0x0A] content_list
      in w\<lparr>final_prompt := final_prompt_content,
           difficulty_value_label := update_difficulty_level (snd acc),
           token_count_label := update_token_count final_prompt_content\<rparr>)"

subsection \<open>The buttons\<close>

text \<open>\<open>save_last_directory\<close> changes the disk, that is the environment: after a write
  that succeeds the configuration file reads back as the directory.\<close>

definition save_last_directory :: "string \<Rightarrow> os_env \<Rightarrow> os_env" where
  "save_last_directory directory env =
     (let config_file = path_join (program_dir env) ''last_directory.txt'' in
      if write_ok env config_file
      then env\<lparr>read_text := (read_text env)(config_file := Inr directory)\<rparr>
      else env)"

text \<open>\<open>directory\<close> is what the dialog returns: the empty string when the user cancels.\<close>

definition select_base_directory ::
  "string \<Rightarrow> os_env \<Rightarrow> main_window \<Rightarrow> main_window \<times> os_env" where
  "select_base_directory directory env w =
     (if directory \<noteq> [] then
        (let w = w\<lparr>base_directory := Some directory\<rparr>;
             w = w\<lparr>model := (model w)\<lparr>rootPath := directory\<rparr>\<rparr>;
             w = w\<lparr>tree_root_index := index_of_path (tree (model w)) directory\<rparr>;
             w = w\<lparr>model := (model w)\<lparr>checked_indexes := {}\<rparr>\<rparr>;
             w = update_file_watcher env w;
             w = update_final_prompt env w
         in (w, save_last_directory directory env))
      else (w, env))"

definition select_all_files :: "os_env \<Rightarrow> main_window \<Rightarrow> main_window" where
  "select_all_files env w =
     (if \<not> truthy (base_directory w) then w
      else
        (let m = model w;
             file_indexes = get_all_file_indexes (tree m) (extensions m)
                              (index_of_path (tree m) (rootPath m));
             C = fold (\<lambda>idx C'. setData (tree m) idx Checked C') file_indexes (checked_indexes m)
         in update_final_prompt env (w\<lparr>model := m\<lparr>checked_indexes := C\<rparr>\<rparr>)))"

definition deselect_all_files :: "os_env \<Rightarrow> main_window \<Rightarrow> main_window" where
  "deselect_all_files env w =
     (if \<not> truthy (base_directory w) then w
      else
        (let m = model w;
             file_indexes = get_all_file_indexes (tree m) (extensions m)
                              (index_of_path (tree m) (rootPath m));
             C = fold (\<lambda>idx C'. setData (tree m) idx Unchecked C') file_indexes (checked_indexes m)
         in update_final_prompt env (w\<lparr>model := m\<lparr>checked_indexes := C\<rparr>\<rparr>)))"

text \<open>The allow-list that \<open>MainWindow.__init__\<close> hands to the model.\<close>

definition default_extensions :: "string list" where
  "default_extensions =
     [''py'', ''js'', ''ts'', ''svelte'', ''css'', ''html'', ''json'', ''txt'',
      ''md'', ''xml'', ''yml'', ''yaml'', ''sql'', ''jsx'', ''tsx'', ''php'',
      ''rb'', ''java'', ''c'', ''cpp'', ''cs'', ''sh'', ''bash'', ''go'',
      ''rs'', ''swift'', ''kt'', ''r'', ''dart'', ''scala'', ''ini'',
      ''env'', ''toml'', ''scss'', ''less'', ''pl'', ''lua'', ''ps1'',
      ''vb'', ''bat'', ''coffee'']"

section \<open>Notions for stating the properties\<close>

text \<open>The non-directory children of an index, in row order: the rows that
  \<open>update_children\<close> passes to \<open>setData\<close> and that \<open>update_parent\<close> counts.\<close>

definition file_children :: "fsnode \<Rightarrow> model_index \<Rightarrow> model_index list" where
  "file_children t p =
     filter (\<lambda>c. \<not> isDir t c) (map (\<lambda>i. index_at i p) [0..<rowCount t p])"

text \<open>The ancestors that \<open>update_parent\<close> recomputes on its way up from an index: it stops
  at the first ancestor that is invalid or has no non-directory child.\<close>

function chain :: "fsnode \<Rightarrow> model_index \<Rightarrow> model_index set" where
  "chain t idx =
     (let parent = parent_of idx in
      if isValid parent \<and> file_children t parent \<noteq> []
      then insert parent (chain t parent) else {})"
  by pat_completeness auto
termination
  by (relation "measure (\<lambda>(t, idx). length idx)")
     (auto simp: parent_of_def isValid_def intro: diff_less length_greater_0_conv [THEN iffD2])

declare chain.simps [simp del]

text \<open>The aggregate that \<open>update_parent\<close> stores for a directory: some non-directory child
  is checked (a partly checked directory is kept as checked).\<close>

definition agg :: "fsnode \<Rightarrow> model_index set \<Rightarrow> model_index \<Rightarrow> bool" where
  "agg t C p = (\<exists>c \<in> set (file_children t p). c \<in> C)"

definition put :: "check_state \<Rightarrow> model_index \<Rightarrow> model_index set \<Rightarrow> model_index set" where
  "put v idx C = (if v = Checked then insert idx C else C - {idx})"

definition recomputable :: "fsnode \<Rightarrow> model_index \<Rightarrow> bool" where
  "recomputable t x = (isValid x \<and> file_children t x \<noteq> [])"

text \<open>The files below an index whose extension is on the allow-list.\<close>

definition matching_leaf :: "fsnode \<Rightarrow> string list \<Rightarrow> model_index \<Rightarrow> bool" where
  "matching_leaf t exts idx =
     (\<exists>name. lookup t idx = Some (File name) \<and> lower (file_suffix name) \<in> set exts)"

definition leaves_below :: "fsnode \<Rightarrow> string list \<Rightarrow> model_index \<Rightarrow> model_index set" where
  "leaves_below t exts p = {idx. strict_prefix p idx \<and> matching_leaf t exts idx}"

definition child_indexes :: "fsnode \<Rightarrow> model_index \<Rightarrow> model_index list" where
  "child_indexes t p = map (\<lambda>i. index_at i p) [0..<rowCount t p]"

text \<open>An environment in which the items whose read fails are absent: they are
  neither selected nor listed in a directory.\<close>

definition read_ok :: "os_env \<Rightarrow> string \<Rightarrow> bool" where
  "read_ok env path = (case read_text env path of Inl e \<Rightarrow> False | Inr content \<Rightarrow> True)"

definition skip_failed_reads :: "fsnode \<Rightarrow> os_env \<Rightarrow> os_env" where
  "skip_failed_reads t env =
     env\<lparr>set_order := \<lambda>S. filter (\<lambda>idx. read_ok env (filePath t idx)) (set_order env S),
         listdir := \<lambda>dir. filter (\<lambda>f. read_ok env (path_join dir f)) (listdir env dir)\<rparr>"

subsection \<open>A small project to run the model on\<close>

definition demo_tree :: fsnode where
  "demo_tree =
     Dir [] [Dir ''proj'' [Dir ''sub'' [File ''c.py''], File ''a.py'', File ''b.bin'',
                           Dir ''assets'' [File ''logo.png'']],
             Dir ''outer'' [Dir ''inner'' [File ''x.PY'']]]"

text \<open>The same project before the view has expanded anything: the model holds the two
  top-level directories and none of their rows yet.\<close>

definition demo_collapsed :: fsnode where
  "demo_collapsed = Dir [] [Dir ''proj'' [], Dir ''outer'' []]"

definition demo_env :: os_env where
  "demo_env =
     \<lparr>read_text = (\<lambda>p. if p = ''/proj/a.py'' then Inr ''print(1)''
                        else if p = ''presets/good.txt'' then Inr ''Be brief.''
                        else if p = ''tasktype/review.txt'' then Inr ''Review this.''
                        else Inl OSError),
      write_ok = (\<lambda>p. True),
      relpath = (\<lambda>p b. Inr (drop (Suc (length b)) p)),
      listdir = (\<lambda>d. if d = ''presets'' then [''bad.txt'', ''good.txt'']
                      else if d = ''tasktype'' then [''review.txt'', ''broken.txt'']
                      else []),
      isdir = (\<lambda>d. d = ''presets'' \<or> d = ''tasktype''),
      isfile = (\<lambda>p. True),
      set_order = (\<lambda>S. filter (\<lambda>idx. idx \<in> S) [[0, 0, 0], [0, 1]]),
      program_dir = []\<rparr>"

definition demo_window :: main_window where
  "demo_window =
     \<lparr>base_directory = Some ''/proj'',
      model = \<lparr>tree = demo_tree, rootPath = ''/proj'',
               checked_indexes = {[0, 0, 0], [0, 1]}, extensions = [''py'']\<rparr>,
      tree_root_index = [0],
      tasktypes = [], presets = [],
      tasktype_checkbox = True, tasktype_combo = combo_clear,
      presets_checkbox = True, presets_combo = combo_clear,
      task_instruction = ''Fix it'',
      final_prompt = [],
      difficulty_value_label = update_difficulty_level 0,
      token_count_label = 0,
      watched_files = []\<rparr>"

section \<open>How \<open>update_parent\<close> and \<open>setData\<close> change the selection set\<close>

lemma count_fold:
  "fold (count_step t C p) rows acc =
     (fst acc + length (filter (\<lambda>c. c \<in> C) (filter (\<lambda>c. \<not> isDir t c) (map (\<lambda>i. index_at i p) rows))),
      snd acc + length (filter (\<lambda>c. \<not> isDir t c) (map (\<lambda>i. index_at i p) rows)))"
  by (induction rows arbitrary: acc) (auto simp: count_step_def Let_def)

lemma count_children_eq:
  "count_children t C p =
     (length (filter (\<lambda>c. c \<in> C) (file_children t p)), length (file_children t p))"
  by (simp add: count_children_def count_fold file_children_def)

lemma file_children_not_dir: "c \<in> set (file_children t p) \<Longrightarrow> \<not> isDir t c"
  by (simp add: file_children_def)

lemma file_children_parent: "c \<in> set (file_children t p) \<Longrightarrow> parent_of c = p"
  by (auto simp: file_children_def parent_of_def index_at_def)

lemma isDir_if_children: "file_children t p \<noteq> [] \<Longrightarrow> isDir t p"
proof -
  assume "file_children t p \<noteq> []"
  then have "rowCount t p \<noteq> 0" by (auto simp: file_children_def intro: ccontr)
  then show ?thesis using not_isDir_rowCount [of t p] by auto
qed

lemma chain_shorter: "x \<in> chain t idx \<Longrightarrow> length x < length idx"
proof (induction t idx rule: chain.induct)
  case (1 t idx)
  show ?case
  proof (cases "isValid (parent_of idx) \<and> file_children t (parent_of idx) \<noteq> []")
    case True
    then have idx: "idx \<noteq> []" by (auto simp: isValid_def parent_of_def)
    from True "1.prems" have "x = parent_of idx \<or> x \<in> chain t (parent_of idx)"
      by (subst (asm) chain.simps) (simp add: Let_def)
    then show ?thesis
    proof
      assume "x = parent_of idx" with idx show ?thesis by (simp add: parent_of_def)
    next
      assume "x \<in> chain t (parent_of idx)"
      with "1.IH" True have "length x < length (parent_of idx)" by simp
      then show ?thesis by (simp add: parent_of_def)
    qed
  next
    case False
    with "1.prems" show ?thesis by (subst (asm) chain.simps) (auto simp: Let_def)
  qed
qed

lemma chain_props: "x \<in> chain t idx \<Longrightarrow> isValid x \<and> file_children t x \<noteq> []"
proof (induction t idx rule: chain.induct)
  case (1 t idx)
  show ?case
  proof (cases "isValid (parent_of idx) \<and> file_children t (parent_of idx) \<noteq> []")
    case True
    from True "1.prems" have "x = parent_of idx \<or> x \<in> chain t (parent_of idx)"
      by (subst (asm) chain.simps) (simp add: Let_def)
    with True "1.IH" show ?thesis by auto
  next
    case False
    with "1.prems" show ?thesis by (subst (asm) chain.simps) (auto simp: Let_def)
  qed
qed

lemma agg_cong: "(\<And>c. \<not> isDir t c \<Longrightarrow> c \<in> C \<longleftrightarrow> c \<in> C') \<Longrightarrow> agg t C p = agg t C' p"
  by (auto simp: agg_def dest: file_children_not_dir)

lemma recompute_eq:
  assumes "xs \<noteq> []"
  shows "(if length (filter P xs) = length xs then A
          else if length (filter P xs) = 0 then B else A) =
         (if \<exists>c\<in>set xs. P c then A else B)"
proof (cases "\<exists>c\<in>set xs. P c")
  case True
  then have "filter P xs \<noteq> []" by (simp add: filter_empty_conv)
  with True show ?thesis by simp
next
  case False
  then have "filter P xs = []" by (simp add: filter_empty_conv)
  with False assms show ?thesis by simp
qed

lemma update_parent_unfold:
  "update_parent t idx C =
     (if isValid (parent_of idx) \<and> file_children t (parent_of idx) \<noteq> []
      then update_parent t (parent_of idx)
             (if agg t C (parent_of idx) then insert (parent_of idx) C else C - {parent_of idx})
      else C)"
  by (subst update_parent.simps)
     (simp add: Let_def count_children_eq recompute_eq agg_def)

lemma update_parent_mem:
  "x \<in> update_parent t idx C \<longleftrightarrow> (if x \<in> chain t idx then agg t C x else x \<in> C)"
proof (induction t idx C rule: update_parent.induct)
  case (1 t idx C)
  let ?p = "parent_of idx"
  show ?case
  proof (cases "isValid ?p \<and> file_children t ?p \<noteq> []")
    case False
    then show ?thesis
      by (subst update_parent_unfold, subst chain.simps) (auto simp: Let_def)
  next
    case True
    let ?C' = "if agg t C ?p then insert ?p C else C - {?p}"
    have up: "update_parent t idx C = update_parent t ?p ?C'"
      using True by (subst update_parent_unfold) simp
    have ch: "chain t idx = insert ?p (chain t ?p)"
      using True by (subst chain.simps) (simp add: Let_def)
    have total: "0 < snd (count_children t C ?p)"
      using True by (simp add: count_children_eq)
    have C'eq: "?C' = (if fst (count_children t C ?p) = snd (count_children t C ?p) then insert ?p C
              else if fst (count_children t C ?p) = 0 then C - {?p}
              else insert ?p C)"
      unfolding count_children_eq fst_conv snd_conv agg_def
      by (rule recompute_eq [symmetric]) (use True in simp)
    have IH: "x \<in> update_parent t ?p ?C' \<longleftrightarrow> (if x \<in> chain t ?p then agg t ?C' x else x \<in> ?C')"
      using "1.IH" [OF refl _ refl refl total] True C'eq by simp
    have pdir: "isDir t ?p" using True isDir_if_children by blast
    have aggeq: "agg t ?C' y = agg t C y" for y
      by (rule agg_cong) (use pdir in auto)
    have notin: "?p \<notin> chain t ?p" using chain_shorter by blast
    show ?thesis
      unfolding up ch IH aggeq using notin by auto
  qed
qed

lemma chain_recomputable: "x \<in> chain t idx \<Longrightarrow> recomputable t x"
  by (simp add: recomputable_def chain_props)

lemma recomputable_isDir: "recomputable t x \<Longrightarrow> isDir t x"
  by (simp add: recomputable_def isDir_if_children)

lemma chain_parent:
  "recomputable t (parent_of idx) \<Longrightarrow> chain t idx = insert (parent_of idx) (chain t (parent_of idx))"
  by (subst chain.simps) (simp add: Let_def recomputable_def)

lemma chain_file_child:
  "c \<in> set (file_children t p) \<Longrightarrow> isValid p \<Longrightarrow> chain t c = insert p (chain t p)"
proof -
  assume c: "c \<in> set (file_children t p)" and p: "isValid p"
  from c have par: "parent_of c = p" by (rule file_children_parent)
  from c have "file_children t p \<noteq> []" by auto
  with p have "recomputable t (parent_of c)" by (simp add: recomputable_def par)
  then show ?thesis using chain_parent [of t c] by (simp add: par)
qed

lemma setData_leaf: "\<not> isDir t f \<Longrightarrow> setData t f v C = update_parent t f (put v f C)"
  by (subst setData.simps, subst update_children.simps)
     (simp add: not_isDir_rowCount put_def)

lemma update_children_rows:
  "fold (\<lambda>i C'. let child = index_at i idx in
                 if isDir t child then C' else setData t child v C') rows C =
   fold (\<lambda>c C'. setData t c v C')
        (filter (\<lambda>c. \<not> isDir t c) (map (\<lambda>i. index_at i idx) rows)) C"
  by (induction rows arbitrary: C) (simp_all add: Let_def)

lemma update_children_eq:
  "update_children t idx v C = fold (\<lambda>c C'. setData t c v C') (file_children t idx) C"
  by (subst update_children.simps) (simp only: update_children_rows file_children_def)

lemma setData_eq:
  "setData t idx v C =
     update_parent t idx (fold (\<lambda>c C'. setData t c v C') (file_children t idx) (put v idx C))"
  by (subst setData.simps) (simp only: update_children_eq put_def)

lemma setData_leaf_mem:
  "\<not> isDir t f \<Longrightarrow>
   x \<in> setData t f v C \<longleftrightarrow> (if x \<in> chain t f then agg t (put v f C) x else x \<in> put v f C)"
  by (simp add: setData_leaf update_parent_mem)

lemma stable_update_parent: "\<not> recomputable t x \<Longrightarrow> x \<in> update_parent t idx C \<longleftrightarrow> x \<in> C"
  using chain_recomputable [of x t idx] by (auto simp: update_parent_mem)

lemma stable_fold:
  assumes "\<not> recomputable t x" and "\<forall>f \<in> set ls. \<not> isDir t f"
  shows "x \<in> fold (\<lambda>c C'. setData t c v C') ls C \<longleftrightarrow>
         (if x \<in> set ls then v = Checked else x \<in> C)"
  using assms(2)
proof (induction ls rule: rev_induct)
  case Nil
  show ?case by simp
next
  case (snoc f ls)
  then show ?case using assms(1)
    by (auto simp: setData_leaf stable_update_parent put_def)
qed

lemma stable_setData:
  assumes "\<not> recomputable t x"
  shows "x \<in> setData t D v C \<longleftrightarrow>
         (if x = D \<or> x \<in> set (file_children t D) then v = Checked else x \<in> C)"
proof -
  have leaves: "\<forall>f \<in> set (file_children t D). \<not> isDir t f"
    by (simp add: file_children_not_dir)
  show ?thesis
    unfolding setData_eq stable_update_parent [OF assms] stable_fold [OF assms leaves]
    by (auto simp: put_def)
qed

lemma leaf_not_recomputable: "\<not> isDir t x \<Longrightarrow> \<not> recomputable t x"
  using recomputable_isDir by blast

lemma self_setData: "D \<in> setData t D v C \<longleftrightarrow> v = Checked"
proof (cases "recomputable t D")
  case False
  then show ?thesis by (simp add: stable_setData)
next
  case True
  then have valid: "isValid D" and ne: "file_children t D \<noteq> []"
    by (simp_all add: recomputable_def)
  let ?fs = "file_children t D"
  obtain fs' c where fs: "?fs = fs' @ [c]"
    using ne by (cases ?fs rule: rev_cases) auto
  have c: "c \<in> set ?fs" by (simp add: fs)
  have cleaf: "\<not> isDir t c" using c by (rule file_children_not_dir)
  have leaves: "\<forall>f \<in> set fs'. \<not> isDir t f"
    using file_children_not_dir [of _ t D] by (simp add: fs)
  let ?R = "fold (\<lambda>c C'. setData t c v C') fs' (put v D C)"
  have others: "c' \<in> ?R \<longleftrightarrow> v = Checked" if "c' \<in> set fs'" for c'
    using stable_fold [of t c' fs' v "put v D C"] that leaves
    by (simp add: leaf_not_recomputable)
  have Dch: "D \<in> chain t c" using chain_file_child [OF c valid] by simp
  have notself: "D \<notin> chain t D" using chain_shorter by blast
  have "D \<in> setData t D v C \<longleftrightarrow> D \<in> setData t c v ?R"
    unfolding setData_eq [of t D] fs using notself by (simp add: update_parent_mem)
  also have "\<dots> \<longleftrightarrow> agg t (put v c ?R) D"
    using Dch cleaf by (simp add: setData_leaf_mem)
  also have "\<dots> \<longleftrightarrow> v = Checked"
    unfolding agg_def fs using others by (auto simp: put_def)
  finally show ?thesis .
qed

lemma setData_eval:
  "setData t idx v C =
     update_parent t idx
       (fold (\<lambda>c C'. update_parent t c (put v c C')) (file_children t idx) (put v idx C))"
proof -
  have "fold (\<lambda>c C'. setData t c v C') fs C0 = fold (\<lambda>c C'. update_parent t c (put v c C')) fs C0"
    if "\<forall>f \<in> set fs. \<not> isDir t f" for fs C0
    using that by (induction fs arbitrary: C0) (simp_all add: setData_leaf)
  then show ?thesis
    by (subst setData_eq) (simp add: file_children_not_dir)
qed

lemma file_child_not_self: "c \<in> set (file_children t D) \<Longrightarrow> c \<noteq> D"
  by (auto simp: file_children_def index_at_def)

lemma check_leaves_parent:
  assumes valid: "isValid D"
    and leaves: "\<forall>f \<in> set ls. \<not> isDir t f"
    and some: "set (file_children t D) \<inter> set ls \<noteq> {}"
  shows "D \<in> fold (\<lambda>f C'. setData t f Checked C') ls C"
  using leaves some
proof (induction ls rule: rev_induct)
  case Nil
  then show ?case by simp
next
  case (snoc f ls)
  let ?R = "fold (\<lambda>f C'. setData t f Checked C') ls C"
  have fleaf: "\<not> isDir t f" and lsleaves: "\<forall>f \<in> set ls. \<not> isDir t f"
    using snoc.prems(1) by simp_all
  have "file_children t D \<noteq> []" using snoc.prems(2) by auto
  then have Ddir: "isDir t D" by (rule isDir_if_children)
  then have Df: "D \<noteq> f" using fleaf by auto
  show ?case
  proof (cases "D \<in> chain t f")
    case True
    obtain c where c: "c \<in> set (file_children t D)" "c \<in> set (ls @ [f])"
      using snoc.prems(2) by auto
    have cleaf: "\<not> recomputable t c"
      using c(1) by (simp add: file_children_not_dir leaf_not_recomputable)
    have "c \<in> insert f ?R"
    proof (cases "c = f")
      case False
      with c(2) have "c \<in> set ls" by simp
      then have "c \<in> ?R" using stable_fold [OF cleaf lsleaves, of Checked C] by simp
      then show ?thesis by simp
    qed simp
    with c(1) have "agg t (put Checked f ?R) D" by (auto simp: agg_def put_def)
    with True fleaf show ?thesis by (simp add: setData_leaf_mem)
  next
    case False
    have "f \<notin> set (file_children t D)"
      using False chain_file_child [OF _ valid, of f t] by auto
    with snoc.prems(2) have "set (file_children t D) \<inter> set ls \<noteq> {}" by auto
    with snoc.IH lsleaves have "D \<in> ?R" by simp
    with False fleaf Df show ?thesis by (simp add: setData_leaf_mem put_def)
  qed
qed

section \<open>Selecting after deselecting\<close>

lemma fold_frame:
  assumes "\<forall>f \<in> set ls. \<not> isDir t f"
    and "x \<notin> set ls" and "x \<notin> \<Union> (chain t ` set ls)"
  shows "x \<in> fold (\<lambda>f C'. setData t f v C') ls C \<longleftrightarrow> x \<in> C"
  using assms
proof (induction ls arbitrary: C)
  case Nil
  show ?case by simp
next
  case (Cons f ls)
  then have "x \<in> fold (\<lambda>f C'. setData t f v C') ls (setData t f v C) \<longleftrightarrow> x \<in> setData t f v C"
    by simp
  also have "\<dots> \<longleftrightarrow> x \<in> C"
    using Cons.prems by (simp add: setData_leaf_mem put_def)
  finally show ?case by simp
qed

lemma fold_checked_sim:
  assumes "\<forall>f \<in> set ls. \<not> isDir t f"
    and "\<forall>x. x \<notin> set ls \<and> x \<notin> \<Union> (chain t ` set ls) \<longrightarrow> (x \<in> C1 \<longleftrightarrow> x \<in> C2)"
  shows "fold (\<lambda>f C'. setData t f Checked C') ls C1 = fold (\<lambda>f C'. setData t f Checked C') ls C2"
  using assms
proof (induction ls arbitrary: C1 C2)
  case Nil
  then show ?case by auto
next
  case (Cons f ls)
  have fleaf: "\<not> isDir t f" and leaves: "\<forall>f \<in> set ls. \<not> isDir t f"
    using Cons.prems(1) by simp_all
  have "\<forall>x. x \<notin> set ls \<and> x \<notin> \<Union> (chain t ` set ls) \<longrightarrow>
          (x \<in> setData t f Checked C1 \<longleftrightarrow> x \<in> setData t f Checked C2)"
  proof (intro allI impI)
    fix x assume x: "x \<notin> set ls \<and> x \<notin> \<Union> (chain t ` set ls)"
    show "x \<in> setData t f Checked C1 \<longleftrightarrow> x \<in> setData t f Checked C2"
    proof (cases "x \<in> chain t f")
      case True
      then have xv: "isValid x" by (simp add: chain_props)
      have "c \<in> insert f C1 \<longleftrightarrow> c \<in> insert f C2" if c: "c \<in> set (file_children t x)" for c
      proof (cases "c = f")
        case False
        have "x \<in> chain t c" using chain_file_child [OF c xv] by simp
        with x have "c \<notin> set ls" by auto
        moreover have "c \<notin> \<Union> (chain t ` set (f # ls))"
          using c chain_recomputable file_children_not_dir leaf_not_recomputable by blast
        ultimately have "c \<in> C1 \<longleftrightarrow> c \<in> C2" using Cons.prems(2) False by simp
        then show ?thesis by simp
      qed simp
      then have "agg t (insert f C1) x = agg t (insert f C2) x" by (auto simp: agg_def)
      with True fleaf show ?thesis by (simp add: setData_leaf_mem put_def)
    next
      case False
      show ?thesis
      proof (cases "x = f")
        case True
        with False fleaf show ?thesis by (simp add: setData_leaf_mem put_def)
      next
        case xf: False
        with False x Cons.prems(2) have "x \<in> C1 \<longleftrightarrow> x \<in> C2" by simp
        with False xf fleaf show ?thesis by (simp add: setData_leaf_mem put_def)
      qed
    qed
  qed
  from Cons.IH [OF leaves this] show ?case by simp
qed

lemma deselect_then_select:
  assumes "\<forall>f \<in> set ls. \<not> isDir t f"
  shows "fold (\<lambda>f C'. setData t f Checked C') ls (fold (\<lambda>f C'. setData t f Unchecked C') ls C) =
         fold (\<lambda>f C'. setData t f Checked C') ls C"
  by (rule fold_checked_sim [OF assms]) (simp add: fold_frame [OF assms])

section \<open>The ancestors of a toggled directory\<close>

lemma file_children_length: "c \<in> set (file_children t D) \<Longrightarrow> length c = Suc (length D)"
  by (auto simp: file_children_def index_at_def)

lemma update_parent_total0:
  "snd (count_children t C (parent_of idx)) = 0 \<Longrightarrow> update_parent t idx C = C"
  by (subst update_parent.simps) (simp add: Let_def)

lemma chain_child_subset:
  "c \<in> set (file_children t p) \<Longrightarrow> chain t c \<subseteq> insert p (chain t p)"
  by (subst chain.simps) (simp add: Let_def file_children_parent)

lemma chain_total0: "file_children t (parent_of idx) = [] \<Longrightarrow> chain t idx = {}"
  by (subst chain.simps) (simp add: Let_def)

lemma ancestors_after_toggle:
  assumes dir: "isDir t D" and anc: "strict_prefix A D"
  shows "A \<in> setData t D v C \<longleftrightarrow> (if A \<in> chain t D then agg t C A else A \<in> C)"
proof -
  let ?fs = "file_children t D"
  let ?R1 = "fold (\<lambda>c C'. setData t c v C') ?fs (put v D C)"
  have leaves: "\<forall>f \<in> set ?fs. \<not> isDir t f" by (simp add: file_children_not_dir)
  have len: "length A < length D" using anc by (metis prefix_length_less)
  have AD: "A \<noteq> D" using anc by auto
  have Afs: "A \<notin> set ?fs" using len file_children_length [of A t D] by auto
  have R: "A \<in> setData t D v C \<longleftrightarrow> (if A \<in> chain t D then agg t ?R1 A else A \<in> ?R1)"
    by (subst setData_eq) (simp only: update_parent_mem)
  show ?thesis
  proof (cases "A \<in> chain t D")
    case True
    have "c \<in> ?R1 \<longleftrightarrow> c \<in> C" if c: "c \<in> set (file_children t A)" for c
    proof -
      have leaf: "\<not> isDir t c" using c by (rule file_children_not_dir)
      have cD: "c \<noteq> D" using leaf dir by auto
      have cfs: "c \<notin> set ?fs" using c AD file_children_parent by blast
      have "c \<in> ?R1 \<longleftrightarrow> (if c \<in> set ?fs then v = Checked else c \<in> put v D C)"
        using leaf leaves by (intro stable_fold) (simp_all add: leaf_not_recomputable)
      with cD cfs show ?thesis by (simp add: put_def)
    qed
    then have "agg t ?R1 A = agg t C A" by (auto simp: agg_def)
    with True R show ?thesis by simp
  next
    case False
    have "A \<notin> \<Union> (chain t ` set ?fs)"
      using chain_child_subset [of _ t D] False AD by auto
    with leaves Afs have "A \<in> ?R1 \<longleftrightarrow> A \<in> put v D C" by (intro fold_frame)
    with False R AD show ?thesis by (simp add: put_def)
  qed
qed

section \<open>What the traversal collects\<close>

lemma child_lookup:
  "c \<in> set (child_indexes t p) \<Longrightarrow> \<exists>n. lookup t c = Some n"
  by (auto simp: child_indexes_def lookup_child rowCount_def split: option.splits)

lemma child_valid_leaf:
  assumes "c \<in> set (child_indexes t p)"
  shows "\<not> isDir t c \<and> index_valid t exts c \<longleftrightarrow> matching_leaf t exts c"
proof -
  from child_lookup [OF assms] obtain n where n: "lookup t c = Some n" by blast
  show ?thesis
    by (cases n) (simp_all add: isDir_def index_valid_def matching_leaf_def fileName_def n)
qed

lemma lookup_file_below: "lookup (File name) q = Some n \<Longrightarrow> q = []"
  by (cases q) simp_all

lemma leaves_below_unfold:
  "leaves_below t exts p =
     {c \<in> set (child_indexes t p). matching_leaf t exts c} \<union>
     \<Union> (leaves_below t exts ` {c \<in> set (child_indexes t p). isDir t c})"
  (is "?L = ?A \<union> ?B")
proof (intro set_eqI iffI)
  fix idx assume "idx \<in> ?L"
  then have sp: "strict_prefix p idx" and m: "matching_leaf t exts idx"
    by (simp_all add: leaves_below_def)
  from sp obtain i q where idx: "idx = p @ i # q"
    by (metis strict_prefixE' )
  from m obtain name where look: "lookup t idx = Some (File name)"
    by (auto simp: matching_leaf_def)
  let ?c = "index_at i p"
  have idxc: "idx = ?c @ q" by (simp add: idx index_at_def)
  from look obtain n where n: "lookup t p = Some n" and i: "i < length (children n)"
    and rest: "lookup (children n ! i) q = Some (File name)"
    by (auto simp: idx lookup_append split: option.splits if_splits)
  have cin: "?c \<in> set (child_indexes t p)"
    using n i by (simp add: child_indexes_def rowCount_def)
  have lc: "lookup t ?c = Some (children n ! i)"
    using n i by (simp add: lookup_child)
  show "idx \<in> ?A \<union> ?B"
  proof (cases q)
    case Nil
    with m cin idxc show ?thesis by simp
  next
    case (Cons j q')
    have "isDir t ?c"
    proof (cases "children n ! i")
      case (File x)
      with rest Cons show ?thesis using lookup_file_below by fastforce
    next
      case (Dir x cs)
      with lc show ?thesis by (simp add: isDir_def)
    qed
    moreover have "idx \<in> leaves_below t exts ?c"
      using m Cons by (simp add: leaves_below_def idxc strict_prefix_def)
    ultimately show ?thesis using cin by blast
  qed
next
  fix idx assume "idx \<in> ?A \<union> ?B"
  then show "idx \<in> ?L"
  proof
    assume "idx \<in> ?A"
    then show ?thesis
      by (auto simp: leaves_below_def child_indexes_def index_at_def strict_prefix_def)
  next
    assume "idx \<in> ?B"
    then obtain c where c: "c \<in> set (child_indexes t p)" and b: "idx \<in> leaves_below t exts c"
      by blast
    from c have "strict_prefix p c"
      by (auto simp: child_indexes_def index_at_def strict_prefix_def)
    with b show ?thesis
      unfolding leaves_below_def using strict_prefix_def prefix_order.less_trans by blast
  qed
qed

lemma loop_set:
  "set (get_all_file_indexes_loop t exts stack files) =
     set files \<union> \<Union> (leaves_below t exts ` set stack)"
proof (induction t exts stack files rule: get_all_file_indexes_loop.induct)
  case (1 t exts stack files)
  show ?case
  proof (cases "stack = []")
    case True
    then show ?thesis by (subst get_all_file_indexes_loop.simps) simp
  next
    case False
    let ?p = "last stack"
    let ?acc = "fold (scan_step t exts ?p) [0..<rowCount t ?p] (butlast stack, files)"
    have st: "set stack = insert ?p (set (butlast stack))"
      using False by (metis append_butlast_last_id list.simps(15) rotate1.simps(2) set_rotate1)
    have f: "set (fst ?acc) = set (butlast stack) \<union> {c \<in> set (child_indexes t ?p). isDir t c}"
      by (auto simp: scan_fold_fst child_indexes_def)
    have s: "set (snd ?acc) = set files \<union> {c \<in> set (child_indexes t ?p). matching_leaf t exts c}"
      using child_valid_leaf [of _ t ?p exts]
      by (auto simp: scan_fold_snd child_indexes_def [symmetric])
    have "set (get_all_file_indexes_loop t exts stack files) =
          set (get_all_file_indexes_loop t exts (fst ?acc) (snd ?acc))"
      using False by (subst get_all_file_indexes_loop.simps) (simp add: Let_def)
    also have "\<dots> = set (snd ?acc) \<union> \<Union> (leaves_below t exts ` set (fst ?acc))"
      using "1.IH" [OF False refl refl] .
    also have "\<dots> = set files \<union> \<Union> (leaves_below t exts ` set stack)"
      unfolding f s st using leaves_below_unfold [of t exts ?p] by auto
    finally show ?thesis .
  qed
qed

lemma set_get_all_file_indexes:
  "set (get_all_file_indexes t exts root_index) = leaves_below t exts root_index"
  by (simp add: get_all_file_indexes_def loop_set)

lemma get_all_file_indexes_leaves:
  "\<forall>f \<in> set (get_all_file_indexes t exts root_index). \<not> isDir t f"
  by (auto simp: set_get_all_file_indexes leaves_below_def matching_leaf_def isDir_def)

section \<open>The handlers of the main window\<close>

lemma model_update_final_prompt [simp]: "model (update_final_prompt env w) = model w"
  by (simp add: update_final_prompt_def Let_def)

lemma base_update_final_prompt [simp]:
  "base_directory (update_final_prompt env w) = base_directory w"
  by (simp add: update_final_prompt_def Let_def)

lemma model_update_file_watcher [simp]: "model (update_file_watcher env w) = model w"
  by (simp add: update_file_watcher_def)

lemma sublist_str_join: "x \<in> set xs \<Longrightarrow> sublist x (str_join sep xs)"
proof (induction sep xs rule: str_join.induct)
  case (3 sep a b ys)
  show ?case
  proof (cases "x = a")
    case True
    then show ?thesis by simp
  next
    case False
    with 3 have "sublist x (str_join sep (b # ys))" by simp
    then obtain ps ss where "str_join sep (b # ys) = ps @ x @ ss" by (auto simp: sublist_def)
    then have "str_join sep (a # b # ys) = (a @ sep @ ps) @ x @ ss" by simp
    then show ?thesis unfolding sublist_def by blast
  qed
qed simp_all

lemma read_step_failed:
  "\<not> read_ok env (filePath (tree m) idx) \<Longrightarrow> read_step env m base idx acc = acc"
  by (auto simp: read_step_def read_ok_def Let_def split: sum.splits)

lemma read_fold_filter:
  "fold (read_step env m base) (filter (\<lambda>idx. read_ok env (filePath (tree m) idx)) order) acc =
   fold (read_step env m base) order acc"
  by (induction order arbitrary: acc) (simp_all add: read_step_failed)

lemma read_fold_mono: "set (fst acc) \<subseteq> set (fst (fold (read_step env m base) order acc))"
proof (induction order arbitrary: acc)
  case Nil
  show ?case by simp
next
  case (Cons idx order)
  have "set (fst acc) \<subseteq> set (fst (read_step env m base idx acc))"
    by (auto simp: read_step_def Let_def split: sum.splits)
  with Cons [of "read_step env m base idx acc"] show ?case by auto
qed

lemma read_fold_contains:
  assumes "idx \<in> set order" and "\<not> isDir (tree m) idx"
    and "index_valid (tree m) (extensions m) idx"
    and "read_text env (filePath (tree m) idx) = Inr content"
    and "relpath env (filePath (tree m) idx) base = Inr rel"
  shows "file_block rel content \<in> set (fst (fold (read_step env m base) order acc))"
  using assms(1)
proof (induction order arbitrary: acc)
  case Nil
  then show ?case by simp
next
  case (Cons i order)
  show ?case
  proof (cases "i = idx")
    case True
    have "file_block rel content \<in> set (fst (read_step env m base idx acc))"
      using assms(2-5) by (simp add: read_step_def Let_def)
    with read_fold_mono [of "read_step env m base idx acc" env m base order] True
    show ?thesis by auto
  next
    case False
    with Cons show ?thesis by simp
  qed
qed

lemma load_step_failed:
  "\<not> read_ok env (path_join dir f) \<Longrightarrow> load_step env dir f d = d"
  by (auto simp: load_step_def read_ok_def Let_def split: sum.splits)

lemma load_fold_filter:
  "fold (load_step env dir) (filter (\<lambda>f. read_ok env (path_join dir f)) listing) d =
   fold (load_step env dir) listing d"
  by (induction listing arbitrary: d) (simp_all add: load_step_failed)

lemma load_step_keys: "fst ` set d \<subseteq> fst ` set (load_step env dir f d)"
  by (auto simp: load_step_def Let_def dom_update split: sum.splits)

lemma load_fold_keys: "fst ` set d \<subseteq> fst ` set (fold (load_step env dir) listing d)"
proof (induction listing arbitrary: d)
  case Nil
  show ?case by simp
next
  case (Cons f listing)
  from load_step_keys [of d env dir f] Cons [of "load_step env dir f d"] show ?case by auto
qed

lemma load_fold_contains:
  assumes "f \<in> set listing" and "endswith f ''.txt''"
    and "read_text env (path_join dir f) = Inr content"
  shows "splitext_root f \<in> fst ` set (fold (load_step env dir) listing d)"
  using assms(1)
proof (induction listing arbitrary: d)
  case Nil
  then show ?case by simp
next
  case (Cons g listing)
  show ?case
  proof (cases "g = f")
    case True
    have "splitext_root f \<in> fst ` set (load_step env dir f d)"
      using assms(2,3) by (simp add: load_step_def Let_def dom_update)
    with load_fold_keys [of "load_step env dir f d" env dir listing] True
    show ?thesis by auto
  next
    case False
    with Cons show ?thesis by simp
  qed
qed

lemma read_step_skip [simp]:
  "read_step (skip_failed_reads t env) = read_step env"
  by (intro ext) (simp add: read_step_def skip_failed_reads_def Let_def cong: sum.case_cong)

lemma load_step_skip [simp]:
  "load_step (skip_failed_reads t env) = load_step env"
  by (intro ext) (simp add: load_step_def skip_failed_reads_def Let_def cong: sum.case_cong)

lemma update_final_prompt_skip:
  "update_final_prompt (skip_failed_reads (tree (model w)) env) w = update_final_prompt env w"
proof -
  have "fold (read_step env (model w) base)
          (set_order (skip_failed_reads (tree (model w)) env) S) acc =
        fold (read_step env (model w) base) (set_order env S) acc" for base S acc
    by (simp add: skip_failed_reads_def read_fold_filter)
  then show ?thesis
    by (cases "base_directory w") (simp_all add: update_final_prompt_def Let_def)
qed

lemma load_presets_skip: "load_presets (skip_failed_reads t env) w = load_presets env w"
proof -
  have "fold (load_step env dir) (listdir (skip_failed_reads t env) dir) d =
        fold (load_step env dir) (listdir env dir) d" for dir d
    by (simp add: skip_failed_reads_def load_fold_filter)
  moreover have "program_dir (skip_failed_reads t env) = program_dir env"
    and "isdir (skip_failed_reads t env) = isdir env"
    by (simp_all add: skip_failed_reads_def)
  ultimately show ?thesis by (simp add: load_presets_def Let_def)
qed

lemma load_tasktypes_skip: "load_tasktypes (skip_failed_reads t env) w = load_tasktypes env w"
proof -
  have "fold (load_step env dir) (listdir (skip_failed_reads t env) dir) d =
        fold (load_step env dir) (listdir env dir) d" for dir d
    by (simp add: skip_failed_reads_def load_fold_filter)
  moreover have "program_dir (skip_failed_reads t env) = program_dir env"
    and "isdir (skip_failed_reads t env) = isdir env"
    by (simp_all add: skip_failed_reads_def)
  ultimately show ?thesis by (simp add: load_tasktypes_def Let_def)
qed

lemma final_prompt_contains:
  assumes base: "base_directory w = Some base" "base \<noteq> []"
    and idx: "idx \<in> set (set_order env (checked_indexes (model w)))"
    and ok: "\<not> isDir (tree (model w)) idx" "index_valid (tree (model w)) (extensions (model w)) idx"
      "read_text env (filePath (tree (model w)) idx) = Inr content"
      "relpath env (filePath (tree (model w)) idx) base = Inr rel"
  shows "sublist (file_block rel content) (final_prompt (update_final_prompt env w))"
proof -
  let ?acc = "fold (read_step env (model w) base) (set_order env (checked_indexes (model w))) ([], 0)"
  let ?nl = "[CHR 0x0A, CHR 0x0A]"
  have mem: "file_block rel content \<in> set (fst ?acc)"
    using idx ok by (rule read_fold_contains)
  then have ne: "fst ?acc \<noteq> []" by auto
  have s1: "sublist (file_block rel content) (str_join ?nl (fst ?acc))"
    using mem by (rule sublist_str_join)
  let ?pre = "labelled (tasktype_checkbox w) ''Tasktype'' (tasktype_combo w) (tasktypes w) @
              [''<!-- Task Instruction -->'', task_instruction w]"
  let ?post = "labelled (presets_checkbox w) ''Preset'' (presets_combo w) (presets w)"
  have fp: "final_prompt (update_final_prompt env w) =
      str_join ?nl (?pre @ [''<!-- Selected Files -->'', str_join ?nl (fst ?acc)] @ ?post)"
    using base ne by (simp add: update_final_prompt_def Let_def)
  have "sublist (str_join ?nl (fst ?acc)) (final_prompt (update_final_prompt env w))"
    unfolding fp by (rule sublist_str_join) simp
  with s1 show ?thesis by (rule sublist_order.order.trans)
qed

lemma load_step_sound:
  assumes "map_of (load_step env dir g d) k = Some c"
  shows "map_of d k = Some c \<or>
         (endswith g ''.txt'' \<and> splitext_root g = k \<and> read_text env (path_join dir g) = Inr c)"
  using assms
  by (auto simp: load_step_def Let_def update_conv' split: if_splits sum.splits)

lemma load_fold_sound:
  assumes "map_of (fold (load_step env dir) ls d) k = Some c"
  shows "map_of d k = Some c \<or>
         (\<exists>g \<in> set ls. endswith g ''.txt'' \<and> splitext_root g = k \<and>
                        read_text env (path_join dir g) = Inr c)"
  using assms
proof (induction ls arbitrary: d)
  case Nil
  then show ?case by simp
next
  case (Cons g ls)
  from Cons.prems have "map_of (fold (load_step env dir) ls (load_step env dir g d)) k = Some c"
    by simp
  from Cons.IH [OF this] show ?case
  proof
    assume "map_of (load_step env dir g d) k = Some c"
    from load_step_sound [OF this] show ?thesis by auto
  next
    assume "\<exists>g \<in> set ls. endswith g ''.txt'' \<and> splitext_root g = k \<and>
                        read_text env (path_join dir g) = Inr c"
    then show ?thesis by auto
  qed
qed

lemma load_fold_stored:
  assumes f: "f \<in> set ls" "endswith f ''.txt''" "read_text env (path_join dir f) = Inr content"
  shows "\<exists>g c. g \<in> set ls \<and> endswith g ''.txt'' \<and> splitext_root g = splitext_root f \<and>
               read_text env (path_join dir g) = Inr c \<and>
               map_of (fold (load_step env dir) ls []) (splitext_root f) = Some c \<and>
               ((\<forall>h \<in> set ls. endswith h ''.txt'' \<and> splitext_root h = splitext_root f \<longrightarrow> h = f)
                  \<longrightarrow> c = content)"
proof -
  let ?d = "fold (load_step env dir) ls []"
  have "splitext_root f \<in> fst ` set ?d" using f by (rule load_fold_contains)
  then obtain c where c: "map_of ?d (splitext_root f) = Some c"
    by (metis map_of_eq_None_iff not_Some_eq)
  from load_fold_sound [OF c] obtain g where g: "g \<in> set ls" "endswith g ''.txt''"
      "splitext_root g = splitext_root f" "read_text env (path_join dir g) = Inr c"
    by auto
  have "c = content"
    if "\<forall>h \<in> set ls. endswith h ''.txt'' \<and> splitext_root h = splitext_root f \<longrightarrow> h = f"
  proof -
    from that g have "g = f" by blast
    with g(4) f(3) show ?thesis by simp
  qed
  with g c show ?thesis by blast
qed

lemma final_prompt_block:
  assumes base: "base_directory w = Some base" "base \<noteq> []"
    and idx: "idx \<in> set (set_order env (checked_indexes (model w)))"
    and ok: "\<not> isDir (tree (model w)) idx" "index_valid (tree (model w)) (extensions (model w)) idx"
      "read_text env (filePath (tree (model w)) idx) = Inr content"
      "relpath env (filePath (tree (model w)) idx) base = Inr rel"
  shows "sublist (''<!-- '' @ rel @ '' -->'' @ [CHR 0x0A] @ content @ [CHR 0x0A] @
                  ''<!-- end of '' @ rel @ '' -->'')
           (final_prompt (update_final_prompt env w))"
  using final_prompt_contains [OF assms] by (simp add: file_block_def)

section \<open>The product of a word count and the double 1.2\<close>

lemma exp2_bounds: "0 < n \<Longrightarrow> 2 ^ exp2 n \<le> n \<and> n < 2 ^ Suc (exp2 n)"
proof (induction n rule: exp2.induct)
  case (1 n)
  show ?case
  proof (cases "n < 2")
    case True
    with "1.prems" have "n = 1" by simp
    then show ?thesis by (subst (1 2) exp2.simps) simp
  next
    case False
    then have "0 < n div 2" by simp
    with "1.IH" False have IH: "2 ^ exp2 (n div 2) \<le> n div 2 \<and> n div 2 < 2 ^ Suc (exp2 (n div 2))"
      by simp
    have e: "exp2 n = Suc (exp2 (n div 2))" using False by (subst exp2.simps) simp
    define m where "m = n div 2"
    define q where "q = (2::nat) ^ exp2 (n div 2)"
    have d: "2 * m \<le> n" "n < 2 * m + 2" by (simp_all add: m_def)
    from IH have "q \<le> m" "m < 2 * q" by (simp_all add: m_def q_def)
    with d have "2 * q \<le> n \<and> n < 2 * (2 * q)" by arith
    then show ?thesis unfolding e by (simp add: q_def)
  qed
qed

lemma exp2_1: "exp2 (Suc 0) = 0"
  by (subst exp2.simps) simp

lemma c12: "double_round (12 / 10) = 5404319552844595 / 4503599627370496"
proof -
  have f1: "\<lfloor>(12 / 10 :: rat)\<rfloor> = 1" by (simp add: floor_eq_iff)
  have u: "double_ulp (12 / 10) = 1 / 2 ^ 52"
    unfolding double_ulp_def f1 by (simp add: exp2_1)
  have f2: "\<lfloor>(12 / 10 / (1 / 2 ^ 52) :: rat)\<rfloor> = 5404319552844595"
    by (simp add: floor_eq_iff)
  have r: "round_half_even (12 / 10 / (1 / 2 ^ 52)) = 5404319552844595"
    unfolding round_half_even_def f2 by simp
  show ?thesis unfolding double_round_def u r by simp
qed

lemma rhe_int: "round_half_even (of_int m) = m"
  by (simp add: round_half_even_def)

lemma rhe_lower:
  assumes "of_int M - 1 / 2 \<le> y" and "even M"
  shows "M \<le> round_half_even y"
proof -
  let ?f = "\<lfloor>y\<rfloor>"
  have fl: "M - 1 \<le> ?f"
  proof -
    have "of_int (M - 1) \<le> y" using assms(1) by simp
    then show ?thesis by (simp add: le_floor_iff)
  qed
  show ?thesis
  proof (cases "M \<le> ?f")
    case True
    then show ?thesis by (auto simp: round_half_even_def Let_def)
  next
    case False
    with fl have f: "?f = M - 1" by simp
    then have odd: "odd ?f" using assms(2) by simp
    have "1 / 2 \<le> y - of_int ?f" using assms(1) f by simp
    with odd f show ?thesis by (auto simp: round_half_even_def Let_def)
  qed
qed

lemma rhe_upper:
  assumes "y < of_int M - 1 / 2"
  shows "round_half_even y < M"
proof -
  let ?f = "\<lfloor>y\<rfloor>"
  have "y < of_int M" using assms by simp
  then have fl: "?f < M" by (simp add: floor_less_iff)
  show ?thesis
  proof (cases "?f = M - 1")
    case True
    then have "y - of_int ?f < 1 / 2" using assms by simp
    with True show ?thesis by (auto simp: round_half_even_def Let_def)
  next
    case False
    with fl have "?f + 1 < M" by simp
    then show ?thesis by (auto simp: round_half_even_def Let_def)
  qed
qed

lemma exp2_le: "0 < n \<Longrightarrow> n < 2 ^ Suc k \<Longrightarrow> exp2 n \<le> k"
proof -
  assume n: "0 < n" and lt: "n < 2 ^ Suc k"
  from exp2_bounds [OF n] lt have "(2::nat) ^ exp2 n < 2 ^ Suc k" by linarith
  then have "exp2 n < Suc k" by (rule power_less_imp_less_exp [rotated]) simp
  then show ?thesis by simp
qed

lemma float_of_nat_exact:
  assumes "n < 2 ^ 53"
  shows "float_of_nat n = of_nat n"
proof (cases "n = 0")
  case True
  then show ?thesis by (simp add: float_of_nat_def double_round_def)
next
  case False
  then have n: "0 < n" by simp
  let ?e = "exp2 n"
  have e: "?e \<le> 52" using exp2_le [OF n, of 52] assms by simp
  have u: "double_ulp (of_nat n) = 1 / 2 ^ (52 - ?e)"
  proof (cases "?e = 52")
    case True
    then show ?thesis by (simp add: double_ulp_def)
  next
    case False
    with e show ?thesis by (simp add: double_ulp_def)
  qed
  define k where "k = 52 - ?e"
  have u': "double_ulp (of_nat n) = 1 / 2 ^ k" by (simp add: u k_def)
  have "of_nat n / (1 / 2 ^ k) = (of_int (int n * 2 ^ k) :: rat)" by simp
  then have r: "round_half_even (of_nat n / (1 / 2 ^ k)) = int n * 2 ^ k"
    by (simp only: rhe_int)
  have nz: "(of_nat n :: rat) \<noteq> 0" using False by simp
  have "float_of_nat n = of_int (int n * 2 ^ k) * (1 / 2 ^ k)"
    unfolding float_of_nat_def double_round_def using nz by (simp only: if_False u' r)
  also have "\<dots> = of_nat n" by simp
  finally show ?thesis .
qed

lemma core_arith:
  fixes X P Q S N :: rat
  assumes e1: "22517998136852480 * X = 27021597764222975 * P"
    and e2: "6 * P = 5 * Q + S" and "0 \<le> S" and "S \<le> 4 * N"
    and "4503599627370496 \<le> X" and "X < 9007199254740992" and "2 \<le> N"
  shows "Q - 1 / 2 \<le> X \<and> X < Q + N - 1 / 2"
proof -
  have P: "P = 22517998136852480 / 27021597764222975 * X" using e1 by simp
  have Q: "Q = (6 * P - S) / 5" using e2 by simp
  show ?thesis using assms(3-7) unfolding Q P by (simp add: field_simps)
qed

lemma float_product_floor:
  assumes "n < 2 ^ 51"
  shows "\<lfloor>float_mul (float_of_nat n) (double_round (12 / 10))\<rfloor> = \<lfloor>of_nat n * (12 / 10 :: rat)\<rfloor>"
proof (cases "n = 0")
  case True
  then show ?thesis
    by (simp add: float_mul_def float_of_nat_def double_round_def)
next
  case False
  define c :: rat where "c = 5404319552844595 / 4503599627370496"
  define x :: rat where "x = of_nat n * c"
  define k :: int where "k = (6 * int n) div 5"
  define r :: int where "r = (6 * int n) mod 5"
  have n1: "1 \<le> (of_nat n :: rat)" using False by simp
  have nb: "(of_nat n :: rat) < 2251799813685248" using assms by (simp flip: of_nat_less_iff)
  have fl: "float_of_nat n = of_nat n"
    using assms by (intro float_of_nat_exact) simp
  have et: "\<lfloor>float_mul (float_of_nat n) (double_round (12 / 10))\<rfloor> = \<lfloor>double_round x\<rfloor>"
    unfolding float_mul_def fl c12 x_def c_def ..
  have x1: "1 \<le> x" using n1 by (simp add: x_def c_def)
  have xb: "x < 4503599627370496" using nb n1 by (simp add: x_def c_def)
  have xn0: "x \<noteq> 0" using x1 by simp
  let ?m = "nat \<lfloor>x\<rfloor>"
  have m0: "0 < ?m" using x1 by (simp add: le_floor_iff)
  have mb: "?m < 2 ^ Suc 51"
  proof -
    have f0: "0 \<le> \<lfloor>x\<rfloor>" using x1 by (simp add: le_floor_iff)
    have "\<lfloor>x\<rfloor> < int (2 ^ Suc 51)" using xb by (simp add: floor_less_iff)
    with f0 show ?thesis by (simp only: nat_less_iff)
  qed
  define e where "e = exp2 ?m"
  have e51: "e \<le> 51" unfolding e_def using m0 mb by (rule exp2_le)
  define j where "j = 52 - e"
  have j1: "1 \<le> j" and ej: "e + j = 52" using e51 by (simp_all add: j_def)
  define N :: int where "N = 2 ^ j"
  have Neven: "even N" using j1 by (simp add: N_def)
  have N2: "2 \<le> N"
  proof -
    have "(2::int) ^ 1 \<le> 2 ^ j" using j1 by (intro power_increasing) simp_all
    then show ?thesis by (simp add: N_def)
  qed
  have u: "double_ulp x = 1 / of_int N"
    using e51 by (simp add: double_ulp_def e_def [symmetric] j_def N_def)
  define X :: rat where "X = x * of_int N"
  have bnds: "2 ^ e \<le> ?m \<and> ?m < 2 ^ Suc e"
    unfolding e_def using m0 by (rule exp2_bounds)
  have lo: "(2::rat) ^ e \<le> x"
  proof -
    have "int (2 ^ e) \<le> \<lfloor>x\<rfloor>" using bnds m0 by linarith
    then have "of_int (int (2 ^ e)) \<le> x" by (simp only: le_floor_iff)
    then show ?thesis by simp
  qed
  have hi: "x < (2::rat) ^ Suc e"
  proof -
    have "\<lfloor>x\<rfloor> < int (2 ^ Suc e)" using bnds m0 by linarith
    then have "x < of_int (int (2 ^ Suc e))" by (simp only: floor_less_iff)
    then show ?thesis by simp
  qed
  have Nr: "(of_int N :: rat) = 2 ^ j" by (simp add: N_def)
  have pw: "(2::rat) ^ e * 2 ^ j = 4503599627370496"
    using ej by (simp flip: power_add)
  have Xlo: "4503599627370496 \<le> X"
  proof -
    have "(2::rat) ^ e * 2 ^ j \<le> x * 2 ^ j" using lo by (intro mult_right_mono) simp_all
    then show ?thesis by (simp add: X_def Nr pw)
  qed
  have Xhi: "X < 9007199254740992"
  proof -
    have "x * 2 ^ j < (2::rat) ^ Suc e * 2 ^ j" using hi by (intro mult_strict_right_mono) simp_all
    also have "\<dots> = 2 * ((2::rat) ^ e * 2 ^ j)" by simp
    finally show ?thesis by (simp add: X_def Nr pw)
  qed
  define P :: rat where "P = of_nat n * of_int N"
  define Q :: rat where "Q = of_int (k * N)"
  define S :: rat where "S = of_int (r * N)"
  have e1: "22517998136852480 * X = 27021597764222975 * P"
    by (simp add: X_def P_def x_def c_def)
  have kr: "6 * int n = 5 * k + r" by (simp add: k_def r_def)
  have e2: "6 * P = 5 * Q + S"
  proof -
    have "6 * (int n * N) = 5 * (k * N) + r * N" using kr by (simp add: algebra_simps)
    then have "(of_int (6 * (int n * N)) :: rat) = of_int (5 * (k * N) + r * N)" by simp
    then show ?thesis by (simp add: P_def Q_def S_def)
  qed
  have r04: "0 \<le> r" "r \<le> 4" by (simp_all add: r_def) 
  have N0: "0 \<le> N" using N2 by simp
  have S0: "0 \<le> S" using r04 N0 by (simp add: S_def)
  have S4: "S \<le> 4 * of_int N"
  proof -
    have "r * N \<le> 4 * N" using r04 N0 by (intro mult_right_mono) simp_all
    then have "(of_int (r * N) :: rat) \<le> of_int (4 * N)" by (simp only: of_int_le_iff)
    then show ?thesis by (simp add: S_def)
  qed
  have N2r: "(2::rat) \<le> of_int N" using N2 by simp
  from core_arith [OF e1 e2 S0 S4 Xlo Xhi N2r]
  have c1: "Q - 1 / 2 \<le> X" and c2: "X < Q + of_int N - 1 / 2" by simp_all
  define R where "R = round_half_even X"
  have R1: "k * N \<le> R"
    unfolding R_def using c1 Neven by (intro rhe_lower) (simp_all add: Q_def)
  have R2: "R < (k + 1) * N"
    unfolding R_def using c2 by (intro rhe_upper) (simp add: Q_def algebra_simps)
  have dr: "double_round x = of_int R / of_int N"
    using xn0 by (simp add: double_round_def u R_def X_def)
  have Npos: "0 < N" using N2 by simp
  have "\<lfloor>(of_int R :: rat) / of_int N\<rfloor> = R div N" by (simp add: floor_divide_of_int_eq)
  also have "R div N = k"
  proof -
    have "k * N \<le> R" by (rule R1)
    moreover have "R < k * N + N" using R2 by (simp add: algebra_simps)
    ultimately show ?thesis
      by (intro int_div_pos_eq [of R N k "R - N * k"]) (simp_all add: algebra_simps)
  qed
  finally have "\<lfloor>float_mul (float_of_nat n) (double_round (12 / 10))\<rfloor> = k" by (simp only: et dr)
  moreover have "\<lfloor>of_nat n * (12 / 10 :: rat)\<rfloor> = k"
  proof -
    have "of_nat n * (12 / 10 :: rat) = of_int (6 * int n) / of_int 5" by simp
    then show ?thesis unfolding k_def by (simp only: floor_divide_of_int_eq)
  qed
  ultimately show ?thesis by simp
qed

section \<open>Running the model on the small project\<close>

lemmas tree_eval = setData_eval update_parent_unfold file_children_def rowCount_def isDir_def
  index_at_def parent_of_def isValid_def agg_def put_def demo_tree_def eval_nat_numeral

lemmas scan_eval = get_all_file_indexes_def get_all_file_indexes_loop.simps scan_step_def
  index_valid_def fileName_def file_suffix_def lower_def lower_char_def upper_letters_def lower_letters_def Let_def
  rowCount_def isDir_def index_at_def demo_tree_def eval_nat_numeral

lemmas chain_eval = chain.simps file_children_def rowCount_def isDir_def index_at_def
  parent_of_def isValid_def Let_def demo_tree_def eval_nat_numeral

lemmas collapsed_eval = setData_eval update_parent_unfold file_children_def rowCount_def
  isDir_def index_at_def parent_of_def isValid_def agg_def put_def demo_collapsed_def
  eval_nat_numeral

lemma demo_collect:
  "get_all_file_indexes demo_tree [''py''] [] = [[1, 0, 0], [0, 1], [0, 0, 0]]"
  by (simp add: scan_eval)

lemma demo_prompt:
  "final_prompt (update_final_prompt demo_env demo_window) =
     ''<!-- Task Instruction -->'' @ [CHR 0x0A, CHR 0x0A] @ ''Fix it'' @ [CHR 0x0A, CHR 0x0A] @
     ''<!-- Selected Files -->'' @ [CHR 0x0A, CHR 0x0A] @ file_block ''a.py'' ''print(1)''"
  by (simp add: update_final_prompt_def demo_env_def demo_window_def labelled_def currentText_def
      combo_clear_def read_step_def index_valid_def fileName_def file_suffix_def lower_def
      lower_char_def upper_letters_def lower_letters_def filePath_def isDir_def demo_tree_def
      file_block_def Let_def)

lemma demo_presets:
  "presets (load_presets demo_env demo_window) = [(''good'', ''Be brief.'')]"
  by (simp add: load_presets_def demo_env_def load_step_def path_join_def endswith_def
      splitext_root_def Let_def)

lemma demo_select:
  "checked_indexes (model (select_all_files demo_env demo_window)) =
     {[0], [0, 0], [0, 1], [0, 0, 0]}"
  by (simp add: select_all_files_def demo_window_def truthy_def index_of_path_def split_path_def
       scan_eval tree_eval insert_commute)

section \<open>The properties C1 to C10\<close>

text \<open>
  C1 (as amended). \<open>setData\<close> on a directory \<open>D\<close> with value \<open>v\<close> gives \<open>v\<close> to every
  non-directory child of \<open>D\<close>: afterwards such a child is in the selection set exactly
  when \<open>v\<close> is \<open>Checked\<close>. \<open>update_children\<close> skips the subdirectories, so every other
  file, and in particular a file inside a subdirectory of \<open>D\<close>, keeps the state it had.
\<close>

theorem setData_children_only:
  "(\<forall>c \<in> set (file_children t D). c \<in> setData t D v C \<longleftrightarrow> v = Checked) \<and>
   (\<forall>x. \<not> isDir t x \<and> x \<noteq> D \<and> x \<notin> set (file_children t D) \<longrightarrow>
        (x \<in> setData t D v C \<longleftrightarrow> x \<in> C))"
proof (intro conjI ballI allI impI)
  fix c assume c: "c \<in> set (file_children t D)"
  then have "\<not> recomputable t c"
    by (simp add: file_children_not_dir leaf_not_recomputable)
  then show "c \<in> setData t D v C \<longleftrightarrow> v = Checked"
    using c by (simp add: stable_setData)
next
  fix x assume x: "\<not> isDir t x \<and> x \<noteq> D \<and> x \<notin> set (file_children t D)"
  then have "\<not> recomputable t x" by (simp add: leaf_not_recomputable)
  then show "x \<in> setData t D v C \<longleftrightarrow> x \<in> C"
    using x by (simp add: stable_setData)
qed

text \<open>On the small project: checking \<open>proj\<close> checks its file \<open>a.py\<close>, and unchecking \<open>proj\<close>
  leaves \<open>sub/c.py\<close> checked.\<close>

theorem setData_children_only_witness:
  "[0, 1] \<in> setData demo_tree [0] Checked {} \<and>
   [0, 0, 0] \<in> setData demo_tree [0] Unchecked {[0, 0, 0]}"
proof
  have "[0, 1] \<in> set (file_children demo_tree [0])"
    by (simp add: file_children_def rowCount_def isDir_def index_at_def demo_tree_def
        eval_nat_numeral)
  with setData_children_only [of demo_tree "[0]" Checked "{}"]
  show "[0, 1] \<in> setData demo_tree [0] Checked {}" by blast
next
  have "\<not> isDir demo_tree [0, 0, 0] \<and> [0, 0, 0] \<noteq> [0] \<and>
        [0, 0, 0] \<notin> set (file_children demo_tree [0])"
    by (simp add: file_children_def rowCount_def isDir_def index_at_def demo_tree_def
        eval_nat_numeral)
  with setData_children_only [of demo_tree "[0]" Unchecked "{[0, 0, 0]}"]
  show "[0, 0, 0] \<in> setData demo_tree [0] Unchecked {[0, 0, 0]}" by blast
qed

text \<open>C1 as stated fails: \<open>proj/sub/c.py\<close> is a leaf below the directory \<open>proj\<close>, and
  checking \<open>proj\<close> from the empty selection leaves it unchecked.\<close>

theorem setData_descendant_leaf_counterexample:
  "isDir demo_tree [0] \<and> lookup demo_tree [0, 0, 0] = Some (File ''c.py'') \<and>
   [0, 0, 0] \<notin> setData demo_tree [0] Checked {}"
  by (simp add: tree_eval)

text \<open>
  C2 (as amended). \<open>setData\<close> puts the index it is called on into the selection set, or
  takes it out, before anything else, whether it is a file or a directory: after
  \<open>setData\<close> on \<open>D\<close> with value \<open>v\<close>, \<open>D\<close> is in the selection set exactly when \<open>v\<close> is
  \<open>Checked\<close>. Where \<open>D\<close> has a non-directory child this is also the aggregate of those
  children, all of which received \<open>v\<close>.
\<close>

theorem setData_sets_index_itself:
  "(D \<in> setData t D v C \<longleftrightarrow> v = Checked) \<and>
   (file_children t D \<noteq> [] \<longrightarrow> (D \<in> setData t D v C \<longleftrightarrow> agg t (setData t D v C) D))"
proof (intro conjI impI)
  show self: "D \<in> setData t D v C \<longleftrightarrow> v = Checked" by (rule self_setData)
  assume ne: "file_children t D \<noteq> []"
  have "c \<in> setData t D v C \<longleftrightarrow> v = Checked" if "c \<in> set (file_children t D)" for c
    using that by (simp add: stable_setData file_children_not_dir leaf_not_recomputable)
  then have "agg t (setData t D v C) D \<longleftrightarrow> v = Checked"
    using ne by (cases "file_children t D") (auto simp: agg_def)
  with self show "D \<in> setData t D v C \<longleftrightarrow> agg t (setData t D v C) D" by simp
qed

theorem setData_sets_index_itself_witness:
  "[0] \<in> setData demo_tree [0] Checked {} \<and> [0] \<notin> setData demo_tree [0] Unchecked {[0]} \<and>
   agg demo_tree (setData demo_tree [0] Checked {}) [0]"
proof -
  have ne: "file_children demo_tree [0] \<noteq> []"
    by (simp add: file_children_def rowCount_def isDir_def index_at_def demo_tree_def
        eval_nat_numeral)
  show ?thesis
    using setData_sets_index_itself [of "[0]" demo_tree Checked "{}"]
      setData_sets_index_itself [of "[0]" demo_tree Unchecked "{[0]}"] ne
    by blast
qed

text \<open>C2 as stated fails: the directory \<open>outer\<close> holds no file of its own, its only leaf
  \<open>outer/inner/x.PY\<close> stays unchecked, and yet checking \<open>outer\<close> leaves \<open>outer\<close>, and
  nothing else, in the selection set.\<close>

theorem setData_directory_added_counterexample:
  "isDir demo_tree [1] \<and> lookup demo_tree [1, 0, 0] = Some (File ''x.PY'') \<and>
   setData demo_tree [1] Checked {} = {[1]}"
  by (simp add: tree_eval)

text \<open>
  C3 (as amended). For a directory \<open>D\<close> that has at least one non-directory child of its
  own: checking one by one, in any order, a list of files that holds every
  non-directory child of \<open>D\<close> leaves \<open>D\<close> with the same membership in the selection set as
  checking \<open>D\<close> itself, from any starting selection: \<open>D\<close> is in the set.
\<close>

theorem check_leaves_equals_toggle:
  assumes "isValid D" and "file_children t D \<noteq> []"
    and "\<forall>f \<in> set ls. \<not> isDir t f"
    and "set (file_children t D) \<subseteq> set ls"
  shows "(D \<in> fold (\<lambda>f C'. setData t f Checked C') ls C) = (D \<in> setData t D Checked C) \<and>
         D \<in> setData t D Checked C"
proof -
  from assms(2) obtain c where "c \<in> set (file_children t D)"
    by (cases "file_children t D") auto
  with assms(4) have "set (file_children t D) \<inter> set ls \<noteq> {}" by auto
  with assms(1,3) have "D \<in> fold (\<lambda>f C'. setData t f Checked C') ls C"
    by (rule check_leaves_parent)
  moreover have "D \<in> setData t D Checked C" by (simp add: self_setData)
  ultimately show ?thesis by simp
qed

theorem check_leaves_equals_toggle_witness:
  "[0] \<in> fold (\<lambda>f C'. setData demo_tree f Checked C') [[0, 0, 0], [0, 1], [0, 2]] {} \<and>
   [0] \<in> setData demo_tree [0] Checked {}"
proof -
  have "isValid [0::nat]" by (simp add: isValid_def)
  moreover have "file_children demo_tree [0] \<noteq> []"
    and "\<forall>f \<in> set [[0, 0, 0], [0, 1], [0, 2]]. \<not> isDir demo_tree f"
    and "set (file_children demo_tree [0]) \<subseteq> set [[0, 0, 0], [0, 1], [0, 2]]"
    by (simp_all add: file_children_def rowCount_def isDir_def index_at_def demo_tree_def
        eval_nat_numeral)
  ultimately show ?thesis
    using check_leaves_equals_toggle [of "[0]" demo_tree "[[0, 0, 0], [0, 1], [0, 2]]" "{}"]
    by simp
qed

text \<open>C3 as stated fails: the only leaf the directory \<open>outer\<close> contains is
  \<open>outer/inner/x.PY\<close>. Checking that leaf leaves \<open>outer\<close> out of the selection set;
  checking \<open>outer\<close> puts it in.\<close>

theorem check_leaves_counterexample:
  "get_all_file_indexes demo_tree [''py''] [1] = [[1, 0, 0]] \<and>
   [1] \<notin> fold (\<lambda>f C'. setData demo_tree f Checked C') [[1, 0, 0]] {} \<and>
   [1] \<in> setData demo_tree [1] Checked {}"
proof -
  have "get_all_file_indexes demo_tree [''py''] [1] = [[1, 0, 0]]"
    by (simp add: scan_eval)
  moreover have "[1] \<notin> fold (\<lambda>f C'. setData demo_tree f Checked C') [[1, 0, 0]] {} \<and>
      [1] \<in> setData demo_tree [1] Checked {}"
    by (simp add: tree_eval)
  ultimately show ?thesis by simp
qed

text \<open>
  C4. \<open>get_all_file_indexes\<close> returns exactly the files of the tree strictly below the
  root index whose suffix, put in lower case, is on the allow-list; it returns no
  directory, and so a file whose suffix is not on the list is never returned. Every
  entry of the allow-list handed over by the main window is itself in lower case, so the
  comparison ignores the case of the suffix.
\<close>

theorem get_all_file_indexes_exact:
  "set (get_all_file_indexes t exts root_index) =
     {idx. strict_prefix root_index idx \<and>
           (\<exists>name. lookup t idx = Some (File name) \<and> lower (file_suffix name) \<in> set exts)} \<and>
   (\<forall>idx \<in> set (get_all_file_indexes t exts root_index). \<not> isDir t idx) \<and>
   map lower default_extensions = default_extensions"
proof (intro conjI)
  show "set (get_all_file_indexes t exts root_index) =
     {idx. strict_prefix root_index idx \<and>
           (\<exists>name. lookup t idx = Some (File name) \<and> lower (file_suffix name) \<in> set exts)}"
    by (simp add: set_get_all_file_indexes leaves_below_def matching_leaf_def)
  show "\<forall>idx \<in> set (get_all_file_indexes t exts root_index). \<not> isDir t idx"
    by (rule get_all_file_indexes_leaves)
  show "map lower default_extensions = default_extensions"
    by (simp add: default_extensions_def lower_def lower_char_def upper_letters_def lower_letters_def)
qed

text \<open>On the small project, with the allow-list \<open>py\<close>: the three Python files are
  returned, \<open>x.PY\<close> among them, and neither \<open>b.bin\<close> nor a directory.\<close>

theorem get_all_file_indexes_exact_witness:
  "get_all_file_indexes demo_tree [''py''] [] = [[1, 0, 0], [0, 1], [0, 0, 0]] \<and>
   \<not> isDir demo_tree [1, 0, 0] \<and>
   [0, 2] \<notin> set (get_all_file_indexes demo_tree [''py''] [])"
proof -
  have "[1, 0, 0] \<in> set (get_all_file_indexes demo_tree [''py''] [])"
    by (simp add: demo_collect)
  with get_all_file_indexes_exact [of demo_tree "[''py'']" "[]"]
  have "\<not> isDir demo_tree [1, 0, 0]" by blast
  then show ?thesis by (simp add: demo_collect)
qed

text \<open>
  C5. \<open>select_base_directory\<close> with a directory chosen in the dialog (a string that is not
  empty) leaves the selection set empty, whatever it held before.
\<close>

theorem select_base_directory_clears:
  "directory \<noteq> [] \<Longrightarrow>
   checked_indexes (model (fst (select_base_directory directory env w))) = {}"
  by (simp add: select_base_directory_def Let_def)

theorem select_base_directory_clears_witness:
  "checked_indexes (model demo_window) = {[0, 0, 0], [0, 1]} \<and>
   checked_indexes (model (fst (select_base_directory ''/proj/sub'' demo_env demo_window))) = {}"
  using select_base_directory_clears [of "''/proj/sub''" demo_env demo_window]
  by (simp add: demo_window_def)

text \<open>
  C6. From any state of the window, \<open>deselect_all_files\<close> followed by \<open>select_all_files\<close>
  leaves the same selection set as \<open>select_all_files\<close> alone.
\<close>

theorem deselect_select_same:
  "checked_indexes (model (select_all_files env (deselect_all_files env w))) =
   checked_indexes (model (select_all_files env w))"
proof (cases "truthy (base_directory w)")
  case False
  then show ?thesis by (simp add: select_all_files_def deselect_all_files_def)
next
  case True
  let ?m = "model w"
  let ?fs = "get_all_file_indexes (tree ?m) (extensions ?m) (index_of_path (tree ?m) (rootPath ?m))"
  have leaves: "\<forall>f \<in> set ?fs. \<not> isDir (tree ?m) f" by (rule get_all_file_indexes_leaves)
  show ?thesis
    using True deselect_then_select [OF leaves, of "checked_indexes ?m"]
    by (simp add: select_all_files_def deselect_all_files_def Let_def)
qed

theorem deselect_select_same_witness:
  "checked_indexes (model (select_all_files demo_env (deselect_all_files demo_env demo_window))) =
     {[0], [0, 0], [0, 1], [0, 0, 0]}"
  using deselect_select_same [of demo_env demo_window] by (simp add: demo_select)

text \<open>
  C7 (as amended). \<open>setData\<close> on a directory \<open>D\<close> leaves every ancestor of \<open>D\<close> as it was,
  in or out of the selection set, when the parent of \<open>D\<close> has no non-directory child: the
  count \<open>total\<close> that \<open>update_parent\<close> takes there is zero, so it changes nothing and does
  not go on to the ancestors above; the same holds at any index in any state. What
  \<open>total\<close> counts is the non-directory children, of any extension, of the parent being
  recomputed, not the children of \<open>D\<close>. So in general every ancestor that propagation
  reaches, from the parent of \<open>D\<close> upwards as far as the ancestors have a non-directory
  child, ends with the aggregate of its own non-directory children (in the selection
  set exactly when one of them is checked), the parent of \<open>D\<close> first of all, and every
  ancestor above those is unchanged.
\<close>

theorem toggle_directory_ancestors:
  assumes "isDir t D"
  shows "(\<forall>A. strict_prefix A D \<longrightarrow>
            (A \<in> setData t D v C \<longleftrightarrow> (if A \<in> chain t D then agg t C A else A \<in> C))) \<and>
         (isValid (parent_of D) \<and> file_children t (parent_of D) \<noteq> [] \<longrightarrow>
            (parent_of D \<in> setData t D v C \<longleftrightarrow> agg t C (parent_of D))) \<and>
         (snd (count_children t C (parent_of D)) = 0 \<longrightarrow>
            (\<forall>A. strict_prefix A D \<longrightarrow> (A \<in> setData t D v C \<longleftrightarrow> A \<in> C))) \<and>
         (\<forall>idx C'. snd (count_children t C' (parent_of idx)) = 0 \<longrightarrow>
                    update_parent t idx C' = C')"
proof (intro conjI allI impI)
  fix A assume "strict_prefix A D"
  with assms show "A \<in> setData t D v C \<longleftrightarrow> (if A \<in> chain t D then agg t C A else A \<in> C)"
    by (rule ancestors_after_toggle)
next
  assume r: "isValid (parent_of D) \<and> file_children t (parent_of D) \<noteq> []"
  then have "D \<noteq> []" by (auto simp: isValid_def parent_of_def)
  then have "D = parent_of D @ [last D]" by (simp add: parent_of_def)
  then have a: "strict_prefix (parent_of D) D" by (metis strict_prefixI' )
  from r have "parent_of D \<in> chain t D"
    using chain_parent [of t D] by (simp add: recomputable_def)
  with ancestors_after_toggle [OF assms a, of v C]
  show "parent_of D \<in> setData t D v C \<longleftrightarrow> agg t C (parent_of D)" by simp
next
  fix A assume z: "snd (count_children t C (parent_of D)) = 0" and a: "strict_prefix A D"
  from z have "chain t D = {}" by (simp add: count_children_eq chain_total0)
  with ancestors_after_toggle [OF assms a, of v C]
  show "A \<in> setData t D v C \<longleftrightarrow> A \<in> C" by simp
next
  fix idx C' assume "snd (count_children t C' (parent_of idx)) = 0"
  then show "update_parent t idx C' = C'" by (rule update_parent_total0)
qed

text \<open>On the small project: \<open>outer\<close> has no file of its own, so toggling \<open>inner\<close> leaves
  \<open>outer\<close> checked; \<open>proj\<close> stays checked when \<open>assets\<close> is toggled while \<open>a.py\<close> is checked,
  and becomes checked when \<open>sub\<close> is toggled while \<open>b.bin\<close> is checked.\<close>

theorem toggle_directory_ancestors_witness:
  "[1] \<in> setData demo_tree [1, 0] Unchecked {[1]} \<and>
   [0] \<in> setData demo_tree [0, 3] Checked {[0], [0, 1]} \<and>
   [0] \<in> setData demo_tree [0, 0] Checked {[0, 2]} \<and>
   update_parent demo_tree [1, 0] {[1, 0]} = {[1, 0]}"
proof -
  have d: "isDir demo_tree [1, 0]" "isDir demo_tree [0, 3]" "isDir demo_tree [0, 0]"
    by (simp_all add: isDir_def demo_tree_def eval_nat_numeral)
  have p: "strict_prefix [1] [1, 0::nat]" "strict_prefix [0] [0, 3::nat]"
    "strict_prefix [0] [0, 0::nat]" by simp_all
  have z: "snd (count_children demo_tree C (parent_of [1, 0])) = 0" for C
    by (simp add: count_children_eq file_children_def rowCount_def isDir_def index_at_def
        parent_of_def demo_tree_def)
  have c: "[0] \<in> chain demo_tree [0, 3]" "[0] \<in> chain demo_tree [0, 0]"
    by (simp_all add: chain_eval)
  have a: "agg demo_tree {[0], [0, 1]} [0]" "agg demo_tree {[0, 2]} [0]"
    by (simp_all add: agg_def file_children_def rowCount_def isDir_def index_at_def
        demo_tree_def eval_nat_numeral)
  from toggle_directory_ancestors [OF d(1), where v = Unchecked and C = "{[1]}"] p(1) z [of "{[1]}"]
  have 1: "[1] \<in> setData demo_tree [1, 0] Unchecked {[1]}" by blast
  from toggle_directory_ancestors [OF d(2), where v = Checked and C = "{[0], [0, 1]}"] p(2) c(1) a(1)
  have 2: "[0] \<in> setData demo_tree [0, 3] Checked {[0], [0, 1]}" by auto
  from toggle_directory_ancestors [OF d(3), where v = Checked and C = "{[0, 2]}"] p(3) c(2) a(2)
  have 3: "[0] \<in> setData demo_tree [0, 0] Checked {[0, 2]}" by auto
  from toggle_directory_ancestors [OF d(1), where v = Checked and C = "{}"] z [of "{[1, 0]}"]
  have 4: "update_parent demo_tree [1, 0] {[1, 0]} = {[1, 0]}" by blast
  from 1 2 3 4 show ?thesis by simp
qed

text \<open>C7 as stated fails: \<open>proj\<close> is checked while the model holds no row of it yet, which
  puts \<open>proj\<close> alone into the selection set. Once the rows are there, \<open>proj/assets\<close> is a
  directory with no child on the allow-list, and checking it takes its ancestor \<open>proj\<close>
  out of the selection set, since neither \<open>a.py\<close> nor \<open>b.bin\<close> is checked.\<close>

theorem toggle_directory_ancestor_counterexample:
  "setData demo_collapsed [0] Checked {} = {[0]} \<and>
   isDir demo_tree [0, 3] \<and>
   get_all_file_indexes demo_tree default_extensions [0, 3] = [] \<and>
   [0] \<in> {[0::nat]} \<and>
   [0] \<notin> setData demo_tree [0, 3] Checked {[0]}"
proof -
  have "setData demo_collapsed [0] Checked {} = {[0]}" by (simp add: collapsed_eval)
  moreover have "isDir demo_tree [0, 3] \<and> [0] \<notin> setData demo_tree [0, 3] Checked {[0]}"
    by (simp add: tree_eval)
  moreover have "get_all_file_indexes demo_tree default_extensions [0, 3] = []"
    by (simp add: scan_eval default_extensions_def)
  ultimately show ?thesis by simp
qed

text \<open>
  C8. A read that fails is caught and its item skipped. Every handler returns its result
  whatever the reads do, and that result is the one it would give if the items whose
  read fails were not there at all, neither in the selection nor in the listing of the
  directory. What was read is all there: for every selected file that could be read,
  the final prompt holds its block, that is the comment with its relative path, its
  content and the closing comment; and for every preset or task type file that could be
  read, its name is a key of the dictionary, bound to the text read from a file of that
  name, which is the file's own text when no other \<open>.txt\<close> file of the listing yields the
  same name.
\<close>

theorem failed_reads_skipped:
  "update_final_prompt (skip_failed_reads (tree (model w)) env) w = update_final_prompt env w \<and>
   load_presets (skip_failed_reads t env) w = load_presets env w \<and>
   load_tasktypes (skip_failed_reads t env) w = load_tasktypes env w \<and>
   (\<forall>base idx content rel.
      base_directory w = Some base \<and> base \<noteq> [] \<and>
      idx \<in> set (set_order env (checked_indexes (model w))) \<and>
      \<not> isDir (tree (model w)) idx \<and>
      index_valid (tree (model w)) (extensions (model w)) idx \<and>
      read_text env (filePath (tree (model w)) idx) = Inr content \<and>
      relpath env (filePath (tree (model w)) idx) base = Inr rel \<longrightarrow>
      sublist (''<!-- '' @ rel @ '' -->'' @ [CHR 0x0A] @ content @ [CHR 0x0A] @
               ''<!-- end of '' @ rel @ '' -->'')
        (final_prompt (update_final_prompt env w))) \<and>
   (\<forall>dir f content.
      dir = path_join (program_dir env) ''presets'' \<and> isdir env dir \<and>
      f \<in> set (listdir env dir) \<and> endswith f ''.txt'' \<and>
      read_text env (path_join dir f) = Inr content \<longrightarrow>
      (\<exists>g c. g \<in> set (listdir env dir) \<and> endswith g ''.txt'' \<and>
             splitext_root g = splitext_root f \<and> read_text env (path_join dir g) = Inr c \<and>
             map_of (presets (load_presets env w)) (splitext_root f) = Some c \<and>
             ((\<forall>h \<in> set (listdir env dir).
                  endswith h ''.txt'' \<and> splitext_root h = splitext_root f \<longrightarrow> h = f)
                \<longrightarrow> c = content))) \<and>
   (\<forall>dir f content.
      dir = path_join (program_dir env) ''tasktype'' \<and> isdir env dir \<and>
      f \<in> set (listdir env dir) \<and> endswith f ''.txt'' \<and>
      read_text env (path_join dir f) = Inr content \<longrightarrow>
      (\<exists>g c. g \<in> set (listdir env dir) \<and> endswith g ''.txt'' \<and>
             splitext_root g = splitext_root f \<and> read_text env (path_join dir g) = Inr c \<and>
             map_of (tasktypes (load_tasktypes env w)) (splitext_root f) = Some c \<and>
             ((\<forall>h \<in> set (listdir env dir).
                  endswith h ''.txt'' \<and> splitext_root h = splitext_root f \<longrightarrow> h = f)
                \<longrightarrow> c = content)))"
proof (intro conjI allI impI)
  show "update_final_prompt (skip_failed_reads (tree (model w)) env) w = update_final_prompt env w"
    by (rule update_final_prompt_skip)
  show "load_presets (skip_failed_reads t env) w = load_presets env w"
    by (rule load_presets_skip)
  show "load_tasktypes (skip_failed_reads t env) w = load_tasktypes env w"
    by (rule load_tasktypes_skip)
next
  fix base idx content rel
  assume "base_directory w = Some base \<and> base \<noteq> [] \<and>
      idx \<in> set (set_order env (checked_indexes (model w))) \<and>
      \<not> isDir (tree (model w)) idx \<and>
      index_valid (tree (model w)) (extensions (model w)) idx \<and>
      read_text env (filePath (tree (model w)) idx) = Inr content \<and>
      relpath env (filePath (tree (model w)) idx) base = Inr rel"
  then show "sublist (''<!-- '' @ rel @ '' -->'' @ [CHR 0x0A] @ content @ [CHR 0x0A] @
               ''<!-- end of '' @ rel @ '' -->'')
        (final_prompt (update_final_prompt env w))"
    using final_prompt_block by blast
next
  fix dir f content
  assume a: "dir = path_join (program_dir env) ''presets'' \<and> isdir env dir \<and>
      f \<in> set (listdir env dir) \<and> endswith f ''.txt'' \<and>
      read_text env (path_join dir f) = Inr content"
  from a have dir: "dir = path_join (program_dir env) ''presets''"
    and isd: "isdir env (path_join (program_dir env) ''presets'')" by blast+
  have eq: "presets (load_presets env w) = fold (load_step env dir) (listdir env dir) []"
    unfolding dir using isd by (simp add: load_presets_def Let_def)
  from a have f1: "f \<in> set (listdir env dir)" and f2: "endswith f ''.txt''"
    and f3: "read_text env (path_join dir f) = Inr content" by blast+
  show "\<exists>g c. g \<in> set (listdir env dir) \<and> endswith g ''.txt'' \<and>
             splitext_root g = splitext_root f \<and> read_text env (path_join dir g) = Inr c \<and>
             map_of (presets (load_presets env w)) (splitext_root f) = Some c \<and>
             ((\<forall>h \<in> set (listdir env dir).
                  endswith h ''.txt'' \<and> splitext_root h = splitext_root f \<longrightarrow> h = f)
                \<longrightarrow> c = content)"
    unfolding eq by (rule load_fold_stored [OF f1 f2 f3])
next
  fix dir f content
  assume a: "dir = path_join (program_dir env) ''tasktype'' \<and> isdir env dir \<and>
      f \<in> set (listdir env dir) \<and> endswith f ''.txt'' \<and>
      read_text env (path_join dir f) = Inr content"
  from a have dir: "dir = path_join (program_dir env) ''tasktype''"
    and isd: "isdir env (path_join (program_dir env) ''tasktype'')" by blast+
  have eq: "tasktypes (load_tasktypes env w) = fold (load_step env dir) (listdir env dir) []"
    unfolding dir using isd by (simp add: load_tasktypes_def Let_def)
  from a have f1: "f \<in> set (listdir env dir)" and f2: "endswith f ''.txt''"
    and f3: "read_text env (path_join dir f) = Inr content" by blast+
  show "\<exists>g c. g \<in> set (listdir env dir) \<and> endswith g ''.txt'' \<and>
             splitext_root g = splitext_root f \<and> read_text env (path_join dir g) = Inr c \<and>
             map_of (tasktypes (load_tasktypes env w)) (splitext_root f) = Some c \<and>
             ((\<forall>h \<in> set (listdir env dir).
                  endswith h ''.txt'' \<and> splitext_root h = splitext_root f \<longrightarrow> h = f)
                \<longrightarrow> c = content)"
    unfolding eq by (rule load_fold_stored [OF f1 f2 f3])
qed

text \<open>On the small project \<open>a.py\<close> and \<open>sub/c.py\<close> are selected and \<open>sub/c.py\<close> cannot be
  read, nor can \<open>bad.txt\<close> among the presets and \<open>broken.txt\<close> among the task types: the
  prompt holds the block of \<open>a.py\<close>, and the preset \<open>good\<close> and the task type \<open>review\<close>
  are loaded with their texts.\<close>

theorem failed_reads_skipped_witness:
  "read_text demo_env (filePath demo_tree [0, 0, 0]) = Inl OSError \<and>
   read_text demo_env ''presets/bad.txt'' = Inl OSError \<and>
   read_text demo_env ''tasktype/broken.txt'' = Inl OSError \<and>
   sublist (''<!-- a.py -->'' @ [CHR 0x0A] @ ''print(1)'' @ [CHR 0x0A] @ ''<!-- end of a.py -->'')
     (final_prompt (update_final_prompt demo_env demo_window)) \<and>
   map_of (presets (load_presets demo_env demo_window)) ''good'' = Some ''Be brief.'' \<and>
   map_of (tasktypes (load_tasktypes demo_env demo_window)) ''review'' = Some ''Review this.''"
proof -
  have a: "base_directory demo_window = Some ''/proj'' \<and> ''/proj'' \<noteq> [] \<and>
      [0, 1] \<in> set (set_order demo_env (checked_indexes (model demo_window))) \<and>
      \<not> isDir (tree (model demo_window)) [0, 1] \<and>
      index_valid (tree (model demo_window)) (extensions (model demo_window)) [0, 1] \<and>
      read_text demo_env (filePath (tree (model demo_window)) [0, 1]) = Inr ''print(1)'' \<and>
      relpath demo_env (filePath (tree (model demo_window)) [0, 1]) ''/proj'' = Inr ''a.py''"
    by (simp add: demo_window_def demo_env_def demo_tree_def isDir_def index_valid_def
        fileName_def file_suffix_def lower_def lower_char_def upper_letters_def
        lower_letters_def filePath_def)
  have b: "''presets'' = path_join (program_dir demo_env) ''presets'' \<and>
      isdir demo_env ''presets'' \<and>
      ''good.txt'' \<in> set (listdir demo_env ''presets'') \<and> endswith ''good.txt'' ''.txt'' \<and>
      read_text demo_env (path_join ''presets'' ''good.txt'') = Inr ''Be brief.''"
    by (simp add: demo_env_def path_join_def endswith_def)
  have bu: "\<forall>h \<in> set (listdir demo_env ''presets'').
      endswith h ''.txt'' \<and> splitext_root h = splitext_root ''good.txt'' \<longrightarrow> h = ''good.txt''"
    by (simp add: demo_env_def splitext_root_def)
  have c: "''tasktype'' = path_join (program_dir demo_env) ''tasktype'' \<and>
      isdir demo_env ''tasktype'' \<and>
      ''review.txt'' \<in> set (listdir demo_env ''tasktype'') \<and> endswith ''review.txt'' ''.txt'' \<and>
      read_text demo_env (path_join ''tasktype'' ''review.txt'') = Inr ''Review this.''"
    by (simp add: demo_env_def path_join_def endswith_def)
  have cu: "\<forall>h \<in> set (listdir demo_env ''tasktype'').
      endswith h ''.txt'' \<and> splitext_root h = splitext_root ''review.txt'' \<longrightarrow>
      h = ''review.txt''"
    by (simp add: demo_env_def splitext_root_def)
  have r: "splitext_root ''good.txt'' = ''good''" "splitext_root ''review.txt'' = ''review''"
    by (simp_all add: splitext_root_def)
  have d: "read_text demo_env (filePath demo_tree [0, 0, 0]) = Inl OSError \<and>
      read_text demo_env ''presets/bad.txt'' = Inl OSError \<and>
      read_text demo_env ''tasktype/broken.txt'' = Inl OSError"
    by (simp add: demo_env_def filePath_def demo_tree_def)
  note T = failed_reads_skipped [of demo_window demo_env demo_tree]
  from T a have 1: "sublist (''<!-- a.py -->'' @ [CHR 0x0A] @ ''print(1)'' @ [CHR 0x0A] @
      ''<!-- end of a.py -->'') (final_prompt (update_final_prompt demo_env demo_window))"
    by (metis append_Cons append_Nil)
  from T b bu have 2: "map_of (presets (load_presets demo_env demo_window))
      (splitext_root ''good.txt'') = Some ''Be brief.''"
    by metis
  from T c cu have 3: "map_of (tasktypes (load_tasktypes demo_env demo_window))
      (splitext_root ''review.txt'') = Some ''Review this.''"
    by metis
  show ?thesis using 1 2 3 d by (simp add: r)
qed

text \<open>
  C10. While no base directory is selected, \<open>select_all_files\<close> and \<open>deselect_all_files\<close>
  return at once: the window, its model and the selection set are what they were.
\<close>

theorem no_base_directory_noop:
  "base_directory w = None \<Longrightarrow> select_all_files env w = w \<and> deselect_all_files env w = w"
  by (simp add: select_all_files_def deselect_all_files_def truthy_def)

theorem no_base_directory_noop_witness:
  "select_all_files demo_env (demo_window\<lparr>base_directory := None\<rparr>) =
     demo_window\<lparr>base_directory := None\<rparr> \<and>
   deselect_all_files demo_env (demo_window\<lparr>base_directory := None\<rparr>) =
     demo_window\<lparr>base_directory := None\<rparr>"
  using no_base_directory_noop [of "demo_window\<lparr>base_directory := None\<rparr>" demo_env] by simp

text \<open>
  C9. For every text of fewer than \<open>2 ^ 51\<close> words, and no text that fits in memory has
  more, the estimated token count is the number of words that \<open>text.split()\<close> returns
  multiplied by 12/10 and truncated to an integer, which is the floor since the product
  is not negative: neither the double that stands for \<open>1.2\<close> nor the rounding of the
  floating-point product carries the result across an integer. Four words give 4, the
  floor of 4.8.
\<close>

theorem update_token_count_exact:
  "length (py_split text) < 2 ^ 51 \<Longrightarrow>
   update_token_count text = \<lfloor>of_nat (length (py_split text)) * (12 / 10 :: rat)\<rfloor>"
  by (simp only: update_token_count_def Let_def float_product_floor)

theorem update_token_count_exact_witness:
  "py_split ''fix  the bug now'' = [''fix'', ''the'', ''bug'', ''now''] \<and>
   update_token_count ''fix  the bug now'' = 4"
proof -
  have w: "py_split ''fix  the bug now'' = [''fix'', ''the'', ''bug'', ''now'']"
    by (simp add: py_split_def is_space_def)
  have "\<lfloor>of_nat 4 * (12 / 10 :: rat)\<rfloor> = 4" by (simp add: floor_eq_iff)
  with update_token_count_exact [of "''fix  the bug now''"] w show ?thesis by simp
qed

end
